theory Spec2Isabelle
  imports Complex_Main
begin

section \<open>Data model of the workflow executor\<close>

text \<open>
  The executor works on dynamically typed values (Go's \<^verbatim>\<open>interface{}\<close>). The
  constructors are the dynamic types the executor distinguishes with its type
  assertions: \<^verbatim>\<open>bool\<close>, \<^verbatim>\<open>string\<close>, \<^verbatim>\<open>float64\<close>, \<^verbatim>\<open>int\<close>,
  \<^verbatim>\<open>[]interface{}\<close>, \<^verbatim>\<open>map[string]interface{}\<close> and \<^verbatim>\<open>nil\<close>.
  A float64 is represented by the real number it denotes (NaN, the infinities and the
  sign of zero are not represented); \<open>VInt i\<close> is the \<^verbatim>\<open>int\<close> \<open>i\<close>, within the
  64-bit range; a nested map is an association list read with \<open>map_of\<close>.
\<close>

datatype val =
    VNil
  | VBool bool
  | VString string
  | VFloat real
  | VInt int
  | VList "val list"
  | VMap "(string \<times> val) list"

type_synonym vars = "string \<rightharpoonup> val"

text \<open>
  \<^verbatim>\<open>Node\<close>, \<^verbatim>\<open>NodeData\<close> and \<^verbatim>\<open>Edge\<close> of types.go. The fields the executor never
  reads (\<^verbatim>\<open>Position\<close> of a node; \<^verbatim>\<open>ID\<close>, \<^verbatim>\<open>Type\<close>, \<^verbatim>\<open>Animated\<close>, \<^verbatim>\<open>Style\<close>,
  \<^verbatim>\<open>Label\<close>, \<^verbatim>\<open>LabelStyle\<close> of an edge) are left out.
\<close>

record NodeData =
  Label :: string
  Description :: string
  Metadata :: vars

record Node =
  ID :: string
  Type :: string
  Data :: NodeData

record Edge =
  Source :: string
  Target :: string
  SourceHandle :: string

record WorkflowGraph =
  Nodes :: "Node list"
  Edges :: "Edge list"

text \<open>
  \<^verbatim>\<open>ExecutionStep\<close> and \<^verbatim>\<open>ExecutionResponse\<close>. \<open>StepType\<close>, \<open>StepLabel\<close>,
  \<open>StepDescription\<close> are the fields \<^verbatim>\<open>Type\<close>, \<^verbatim>\<open>Label\<close>, \<^verbatim>\<open>Description\<close> of a step,
  \<open>RespStatus\<close> is the field \<^verbatim>\<open>Status\<close> of the response. \<open>Output = None\<close> is the nil
  map.
\<close>

record ExecutionStep =
  NodeID :: string
  StepType :: string
  StepLabel :: string
  StepDescription :: string
  Status :: string
  Output :: "vars option"
  Error :: string

record ExecutionResponse =
  ExecutedAt :: string
  RespStatus :: string
  Steps :: "ExecutionStep list"

record Workflow =
  Definition :: WorkflowGraph

section \<open>The outside world: clock, lookup collaborator, formatting\<close>

text \<open>
  A reading of \<^verbatim>\<open>time.Now()\<close> is a civil time: date, time of day and the offset of
  the local zone from UTC in minutes. Years are taken below 10000.
\<close>

record Time =
  tYear :: nat
  tMonth :: nat
  tDay :: nat
  tHour :: nat
  tMinute :: nat
  tSecond :: nat
  tOffset :: int

definition digit :: "nat \<Rightarrow> char" where
  "digit n = ''0123456789'' ! (n mod 10)"

definition pad2 :: "nat \<Rightarrow> string" where
  "pad2 n = [digit (n div 10), digit n]"

definition pad4 :: "nat \<Rightarrow> string" where
  "pad4 n = [digit (n div 1000), digit (n div 100), digit (n div 10), digit n]"

text \<open>\<^verbatim>\<open>t.Format(time.RFC3339)\<close>, layout \<^verbatim>\<open>2006-01-02T15:04:05Z07:00\<close>.\<close>

definition Format_RFC3339 :: "Time \<Rightarrow> string" where
  "Format_RFC3339 t =
     pad4 (tYear t) @ ''-'' @ pad2 (tMonth t) @ ''-'' @ pad2 (tDay t) @ ''T'' @
     pad2 (tHour t) @ '':'' @ pad2 (tMinute t) @ '':'' @ pad2 (tSecond t) @
     (if tOffset t = 0 then ''Z''
      else (if tOffset t < 0 then ''-'' else ''+'') @
           pad2 (nat \<bar>tOffset t\<bar> div 60) @ '':'' @ pad2 (nat \<bar>tOffset t\<bar> mod 60))"

text \<open>\<^verbatim>\<open>t.Format("20060102150405")\<close>.\<close>

definition Format_20060102150405 :: "Time \<Rightarrow> string" where
  "Format_20060102150405 t =
     pad4 (tYear t) @ pad2 (tMonth t) @ pad2 (tDay t) @
     pad2 (tHour t) @ pad2 (tMinute t) @ pad2 (tSecond t)"

text \<open>
  \<^verbatim>\<open>fmt.Sprintf("%.1f", x)\<close>: the decimal rendering of \<open>x\<close> with one digit after the
  point, rounded to nearest with ties to even.
\<close>

fun show_nat :: "nat \<Rightarrow> string" where
  "show_nat n = (if n < 10 then [digit n] else show_nat (n div 10) @ [digit n])"

declare show_nat.simps [simp del]

definition round_half_even :: "real \<Rightarrow> nat" where
  "round_half_even y =
     (let f = nat \<lfloor>y\<rfloor>; d = y - real f
      in if d < 1 / 2 then f else if 1 / 2 < d then Suc f else if even f then f else Suc f)"

definition sprintf_1f :: "real \<Rightarrow> string" where
  "sprintf_1f x =
     (let n = round_half_even (\<bar>x\<bar> * 10)
      in (if x < 0 then ''-'' else []) @ show_nat (n div 10) @ ''.'' @ [digit n])"

text \<open>
  The executor reads the clock and calls the weather service. \<open>clock w k\<close> and
  \<open>fetchWeather w k lat lon\<close> are what the \<open>k\<close>-th interaction with the outside world
  returns when it is a reading of \<^verbatim>\<open>time.Now()\<close>, respectively the call
  \<^verbatim>\<open>e.fetchWeather(ctx, lat, lon)\<close>: the text of the error (transport failure,
  cancelled context, timeout, status other than 200, undecodable body) or the
  temperature of the response. The functions below thread the number of interactions
  made so far.
\<close>

record world =
  clock :: "nat \<Rightarrow> Time"
  fetchWeather :: "nat \<Rightarrow> real \<Rightarrow> real \<Rightarrow> string + real"

section \<open>Node behaviours\<close>

text \<open>The errors the node behaviours return, and \<^verbatim>\<open>err.Error()\<close>.\<close>

datatype error =
    InvalidInputFields
  | MissingInputField string
  | CityNotFound
  | CoordinatesNotFound string
  | FetchWeatherFailed string
  | TemperatureNotFound
  | ThresholdNotFound
  | EmailNotFound

fun Error_text :: "error \<Rightarrow> string" where
  "Error_text InvalidInputFields = ''invalid inputFields in form node metadata''"
| "Error_text (MissingInputField fieldName) = ''missing required input field: '' @ fieldName"
| "Error_text CityNotFound = ''city not found in variables''"
| "Error_text (CoordinatesNotFound city) = ''coordinates not found for city: '' @ city"
| "Error_text (FetchWeatherFailed err) = ''failed to fetch weather data: '' @ err"
| "Error_text TemperatureNotFound = ''temperature not found in variables''"
| "Error_text ThresholdNotFound = ''threshold not found in variables''"
| "Error_text EmailNotFound = ''email not found in variables''"

text \<open>
  A behaviour takes the variables and the step and returns the error, or the variables
  and the step as it leaves them. Every behaviour returns its errors before its first
  write, so the error case carries no state.
\<close>

type_synonym outcome = "error + vars \<times> ExecutionStep"

text \<open>\<^verbatim>\<open>processFormNode\<close>: the loop over \<^verbatim>\<open>inputFields\<close>, then the function.\<close>

fun processFormNode_fields :: "val list \<Rightarrow> vars \<Rightarrow> vars \<Rightarrow> error + vars" where
  "processFormNode_fields [] vars output = Inr output"
| "processFormNode_fields (field # inputFields) vars output =
     (case field of
        VString fieldName \<Rightarrow>
          (case vars fieldName of
             Some v \<Rightarrow> processFormNode_fields inputFields vars (output(fieldName \<mapsto> v))
           | None \<Rightarrow> Inl (MissingInputField fieldName))
      | _ \<Rightarrow> processFormNode_fields inputFields vars output)"

definition processFormNode :: "Node \<Rightarrow> vars \<Rightarrow> ExecutionStep \<Rightarrow> outcome" where
  "processFormNode node vars step =
     (case Metadata (Data node) ''inputFields'' of
        Some (VList inputFields) \<Rightarrow>
          (case processFormNode_fields inputFields vars Map.empty of
             Inl err \<Rightarrow> Inl err
           | Inr output \<Rightarrow> Inr (vars, step\<lparr>Output := Some output\<rparr>))
      | _ \<Rightarrow> Inl InvalidInputFields)"

text \<open>\<^verbatim>\<open>getCityCoordinates\<close>: the loop over \<^verbatim>\<open>options\<close>, then the function.\<close>

fun getCityCoordinates_options :: "val list \<Rightarrow> string \<Rightarrow> real \<times> real" where
  "getCityCoordinates_options [] city = (0, 0)"
| "getCityCoordinates_options (option # options) city =
     (case option of
        VMap cityData \<Rightarrow>
          (case map_of cityData ''city'' of
             Some (VString cityName) \<Rightarrow>
               (if cityName = city then
                  (case map_of cityData ''lat'' of
                     Some (VFloat lat) \<Rightarrow>
                       (case map_of cityData ''lon'' of
                          Some (VFloat lon) \<Rightarrow> (lat, lon)
                        | _ \<Rightarrow> getCityCoordinates_options options city)
                   | _ \<Rightarrow> getCityCoordinates_options options city)
                else getCityCoordinates_options options city)
           | _ \<Rightarrow> getCityCoordinates_options options city)
      | _ \<Rightarrow> getCityCoordinates_options options city)"

definition getCityCoordinates :: "Node \<Rightarrow> string \<Rightarrow> real \<times> real" where
  "getCityCoordinates node city =
     (case Metadata (Data node) ''options'' of
        Some (VList options) \<Rightarrow> getCityCoordinates_options options city
      | _ \<Rightarrow> (0, 0))"

text \<open>
  \<^verbatim>\<open>processIntegrationNode\<close>. The second component is the number of interactions
  with the outside world after the call.
\<close>

definition processIntegrationNode ::
  "world \<Rightarrow> nat \<Rightarrow> Node \<Rightarrow> vars \<Rightarrow> ExecutionStep \<Rightarrow> outcome \<times> nat" where
  "processIntegrationNode w k node vars step =
     (case vars ''city'' of
        Some (VString city) \<Rightarrow>
          (case getCityCoordinates node city of
             (lat, lon) \<Rightarrow>
               if lat = 0 \<and> lon = 0 then (Inl (CoordinatesNotFound city), k)
               else
                 (case fetchWeather w k lat lon of
                    Inl err \<Rightarrow> (Inl (FetchWeatherFailed err), Suc k)
                  | Inr temperature \<Rightarrow>
                      (Inr (vars(''temperature'' \<mapsto> VFloat temperature),
                            step\<lparr>Output := Some [''temperature'' \<mapsto> VFloat temperature,
                                                  ''location'' \<mapsto> VString city]\<rparr>),
                       Suc k)))
      | _ \<Rightarrow> (Inl CityNotFound, k))"

text \<open>
  \<^verbatim>\<open>float64(thresholdInt)\<close>: the conversion of an integer to the nearest float64
  (53 bits of precision, ties to even). It is exact below \<open>2^53\<close>.
\<close>

fun bitlen :: "nat \<Rightarrow> nat" where
  "bitlen n = (if n = 0 then 0 else Suc (bitlen (n div 2)))"

declare bitlen.simps [simp del]

definition float64_of_int :: "int \<Rightarrow> real" where
  "float64_of_int i =
     (let a = nat \<bar>i\<bar>;
          e = bitlen a - 53;
          q = a div 2 ^ e;
          r = a mod 2 ^ e;
          q' = (if 2 ^ e < 2 * r \<or> (2 * r = 2 ^ e \<and> odd q) then Suc q else q)
      in (if i < 0 then - real (q' * 2 ^ e) else real (q' * 2 ^ e)))"

definition degC :: string where
  "degC = [CHR 0xC2, CHR 0xB0, CHR ''C'']"

text \<open>\<^verbatim>\<open>processConditionNode\<close>.\<close>

definition processConditionNode :: "vars \<Rightarrow> ExecutionStep \<Rightarrow> outcome" where
  "processConditionNode vars step =
     (case vars ''temperature'' of
        Some (VFloat temperature) \<Rightarrow>
          (case (case vars ''threshold'' of
                   Some (VFloat threshold) \<Rightarrow> Some threshold
                 | Some (VInt thresholdInt) \<Rightarrow> Some (float64_of_int thresholdInt)
                 | _ \<Rightarrow> None) of
             None \<Rightarrow> Inl ThresholdNotFound
           | Some threshold \<Rightarrow>
               (let operator = (case vars ''operator'' of
                                  Some (VString s) \<Rightarrow> s
                                | _ \<Rightarrow> ''greater_than'');
                    conditionMet =
                      (if operator = ''greater_than'' then threshold < temperature
                       else if operator = ''less_than'' then temperature < threshold
                       else if operator = ''equals'' then temperature = threshold
                       else if operator = ''greater_than_or_equal'' then threshold \<le> temperature
                       else if operator = ''less_than_or_equal'' then temperature \<le> threshold
                       else threshold < temperature)
                in Inr (vars(''conditionMet'' \<mapsto> VBool conditionMet),
                        step\<lparr>Output := Some
                          [''conditionMet'' \<mapsto> VBool conditionMet,
                           ''threshold'' \<mapsto> VFloat threshold,
                           ''operator'' \<mapsto> VString operator,
                           ''actualValue'' \<mapsto> VFloat temperature,
                           ''message'' \<mapsto> VString
                              (''Temperature '' @ sprintf_1f temperature @ degC @ '' '' @
                               operator @ '' '' @ sprintf_1f threshold @ degC @
                               '' - condition '' @
                               (if conditionMet then ''met'' else ''not met''))]\<rparr>)))
      | _ \<Rightarrow> Inl TemperatureNotFound)"

text \<open>
  \<^verbatim>\<open>processEmailNode\<close>. The draft is built first (one reading of the clock), then
  the output with the message id (a second reading).
\<close>

definition processEmailNode ::
  "world \<Rightarrow> nat \<Rightarrow> vars \<Rightarrow> ExecutionStep \<Rightarrow> outcome \<times> nat" where
  "processEmailNode w k vars step =
     (case vars ''conditionMet'' of
        Some (VBool True) \<Rightarrow>
          (case vars ''city'' of
             Some (VString city) \<Rightarrow>
               (case vars ''temperature'' of
                  Some (VFloat temperature) \<Rightarrow>
                    (case vars ''email'' of
                       Some (VString email) \<Rightarrow>
                         (let emailDraft =
                                [(''to'', VString email),
                                 (''from'', VString ''weather-alerts@example.com''),
                                 (''subject'', VString ''Weather Alert''),
                                 (''body'', VString
                                    (''Weather alert for '' @ city @ ''! Temperature is '' @
                                     sprintf_1f temperature @ degC @ ''!'')),
                                 (''timestamp'', VString (Format_RFC3339 (clock w k)))]
                          in (Inr (vars,
                                   step\<lparr>Output := Some
                                     [''emailDraft'' \<mapsto> VMap emailDraft,
                                      ''deliveryStatus'' \<mapsto> VString ''sent'',
                                      ''messageId'' \<mapsto> VString
                                         (''msg_'' @ Format_20060102150405 (clock w (Suc k))),
                                      ''emailSent'' \<mapsto> VBool True]\<rparr>),
                              Suc (Suc k)))
                     | _ \<Rightarrow> (Inl EmailNotFound, k))
                | _ \<Rightarrow> (Inl TemperatureNotFound, k))
           | _ \<Rightarrow> (Inl CityNotFound, k))
      | _ \<Rightarrow>
          (Inr (vars,
                step\<lparr>Output := Some
                  [''emailSent'' \<mapsto> VBool False,
                   ''message'' \<mapsto> VString ''Condition not met, no email sent'']\<rparr>),
           k))"

section \<open>Edge resolution\<close>

text \<open>
  \<^verbatim>\<open>findNextNodeID\<close>: the loop over the edges in declared order. The type assertion
  \<^verbatim>\<open>vars["conditionMet"].(bool)\<close> succeeds exactly on a \<open>VBool\<close>.
\<close>

fun findNextNodeID :: "Edge list \<Rightarrow> string \<Rightarrow> vars \<Rightarrow> string" where
  "findNextNodeID [] currentNodeID vars = ''''"
| "findNextNodeID (edge # edges) currentNodeID vars =
     (if Source edge = currentNodeID then
        (if SourceHandle edge \<noteq> '''' then
           (case vars ''conditionMet'' of
              Some (VBool conditionMet) \<Rightarrow>
                (if (SourceHandle edge = ''true'' \<and> conditionMet) \<or>
                    (SourceHandle edge = ''false'' \<and> \<not> conditionMet)
                 then Target edge
                 else findNextNodeID edges currentNodeID vars)
            | _ \<Rightarrow> findNextNodeID edges currentNodeID vars)
         else Target edge)
      else findNextNodeID edges currentNodeID vars)"

text \<open>
  The matching rule in the words of the specification: an empty branch tag matches
  unconditionally, the tag \<open>true\<close> matches when \<open>conditionMet\<close> is present and boolean
  true, the tag \<open>false\<close> when it is present and boolean false.
\<close>

definition edge_matches :: "vars \<Rightarrow> Edge \<Rightarrow> bool" where
  "edge_matches vars edge =
     (SourceHandle edge = '''' \<or>
      (SourceHandle edge = ''true'' \<and> vars ''conditionMet'' = Some (VBool True)) \<or>
      (SourceHandle edge = ''false'' \<and> vars ''conditionMet'' = Some (VBool False)))"

definition resolve_spec :: "Edge list \<Rightarrow> string \<Rightarrow> vars \<Rightarrow> string option" where
  "resolve_spec edges currentNodeID vars =
     map_option Target
       (find (\<lambda>edge. Source edge = currentNodeID \<and> edge_matches vars edge) edges)"

section \<open>The graph walker\<close>

fun findNodeByType :: "Node list \<Rightarrow> string \<Rightarrow> Node option" where
  "findNodeByType [] nodeType = None"
| "findNodeByType (node # nodes) nodeType =
     (if Type node = nodeType then Some node else findNodeByType nodes nodeType)"

text \<open>The index \<^verbatim>\<open>nodeMap\<close>: a later node replaces an earlier one with the same id.\<close>

definition nodeMap_of :: "Node list \<Rightarrow> (string \<rightharpoonup> Node)" where
  "nodeMap_of nodes = fold (\<lambda>node nodeMap. nodeMap(ID node \<mapsto> node)) nodes Map.empty"

text \<open>
  The pattern \<^verbatim>\<open>if err := ...; err != nil { step.Status = "failed"; step.Error =
  err.Error(); status = "failed" }\<close> of the switch in \<^verbatim>\<open>Execute\<close>.
\<close>

definition Execute_case ::
  "outcome \<Rightarrow> vars \<Rightarrow> ExecutionStep \<Rightarrow> string \<Rightarrow> vars \<times> ExecutionStep \<times> string" where
  "Execute_case result vars step status =
     (case result of
        Inl err \<Rightarrow> (vars, step\<lparr>Status := ''failed'', Error := Error_text err\<rparr>, ''failed'')
      | Inr (vars', step') \<Rightarrow> (vars', step', status))"

text \<open>
  The switch on the node type in the loop of \<^verbatim>\<open>Execute\<close>: the variables, the
  step, the overall status and the number of interactions after it.
\<close>

definition Execute_switch ::
  "world \<Rightarrow> nat \<Rightarrow> Node \<Rightarrow> vars \<Rightarrow> ExecutionStep \<Rightarrow> string \<Rightarrow>
   (vars \<times> ExecutionStep \<times> string) \<times> nat" where
  "Execute_switch w k current vars step status =
     (if Type current = ''start'' then ((vars, step, status), k)
      else if Type current = ''form'' then
        (Execute_case (processFormNode current vars step) vars step status, k)
      else if Type current = ''integration'' then
        (case processIntegrationNode w k current vars step of
           (result, k') \<Rightarrow> (Execute_case result vars step status, k'))
      else if Type current = ''condition'' then
        (Execute_case (processConditionNode vars step) vars step status, k)
      else if Type current = ''email'' then
        (case processEmailNode w k vars step of
           (result, k') \<Rightarrow> (Execute_case result vars step status, k'))
      else if Type current = ''end'' then ((vars, step, status), k)
      else ((vars,
             step\<lparr>Status := ''failed'', Error := ''Unknown node type: '' @ Type current\<rparr>,
             ''failed''), k))"

text \<open>
  Go maps are references. The store holds the maps that exist: \<open>maps s r\<close> is the
  content of the map with reference \<open>r\<close>, and the references below \<open>fresh s\<close> are in
  use. \<^verbatim>\<open>make(map[string]interface{})\<close> takes the next reference.
\<close>

record store =
  maps :: "nat \<Rightarrow> vars"
  fresh :: nat

definition make_map :: "store \<Rightarrow> nat \<times> store" where
  "make_map s = (fresh s, s\<lparr>maps := (maps s)(fresh s := Map.empty), fresh := Suc (fresh s)\<rparr>)"

text \<open>
  The loop \<^verbatim>\<open>for current != nil\<close> of \<^verbatim>\<open>Execute\<close>, on the map with reference \<open>r\<close>.
  \<open>new_step\<close> is the step record the body starts from;
  \<open>Execute_iteration\<close> is one pass through the body: \<open>Inl\<close> when the function
  returns (at the failed step, or after a \<^verbatim>\<open>break\<close>), \<open>Inr\<close> with the values of the
  loop variables when the loop goes on. The loop need not end (the edges may form a
  cycle): \<open>None\<close> is the run that does not return.
\<close>

definition new_step :: "Node \<Rightarrow> ExecutionStep" where
  "new_step current =
     \<lparr>NodeID = ID current, StepType = Type current,
      StepLabel = Label (Data current),
      StepDescription = Description (Data current),
      Status = ''completed'', Output = None, Error = []\<rparr>"

definition Execute_iteration ::
  "world \<Rightarrow> Edge list \<Rightarrow> (string \<rightharpoonup> Node) \<Rightarrow> nat \<Rightarrow>
   store \<Rightarrow> Node \<Rightarrow> ExecutionStep list \<Rightarrow> string \<Rightarrow> nat \<Rightarrow>
   (store \<times> ExecutionResponse) + (store \<times> Node \<times> ExecutionStep list \<times> string \<times> nat)" where
  "Execute_iteration w edges nodeMap r s current steps status k =
     (case Execute_switch w k current (maps s r) (new_step current) status of
        ((vars', step, status'), k') \<Rightarrow>
          (let s' = s\<lparr>maps := (maps s)(r := vars')\<rparr>;
               steps' = steps @ [step];
               response = \<lparr>ExecutedAt = Format_RFC3339 (clock w k'),
                           RespStatus = status', Steps = steps'\<rparr>
           in if Status step = ''failed'' then Inl (s', response)
              else
                (let nextID = findNextNodeID edges (ID current) vars'
                 in if nextID = [] then Inl (s', response)
                    else
                      (case nodeMap nextID of
                         None \<Rightarrow> Inl (s', response)
                       | Some nextNode \<Rightarrow> Inr (s', nextNode, steps', status', k')))))"

partial_function (option) Execute_loop ::
  "world \<Rightarrow> Edge list \<Rightarrow> (string \<rightharpoonup> Node) \<Rightarrow> nat \<Rightarrow>
   store \<Rightarrow> Node \<Rightarrow> ExecutionStep list \<Rightarrow> string \<Rightarrow> nat \<Rightarrow>
   (store \<times> ExecutionResponse) option" where
  "Execute_loop w edges nodeMap r s current steps status k =
     (case Execute_iteration w edges nodeMap r s current steps status k of
        Inl result \<Rightarrow> Some result
      | Inr (s', nextNode, steps', status', k') \<Rightarrow>
          Execute_loop w edges nodeMap r s' nextNode steps' status' k')"

text \<open>
  \<^verbatim>\<open>Execute\<close> as in the first text of executor.go: the node behaviours work on the
  map \<^verbatim>\<open>inputs\<close> of the caller.
\<close>

definition Execute ::
  "world \<Rightarrow> store \<Rightarrow> Workflow \<Rightarrow> nat \<Rightarrow> (store \<times> ExecutionResponse) option" where
  "Execute w s workflow inputs =
     (let nodes = Nodes (Definition workflow);
          nodeMap = nodeMap_of nodes
      in case findNodeByType nodes ''start'' of
           None \<Rightarrow>
             Some (s, \<lparr>ExecutedAt = Format_RFC3339 (clock w 0),
                       RespStatus = ''failed'',
                       Steps = [\<lparr>NodeID = ''system'', StepType = ''system'',
                                 StepLabel = ''System Error'', StepDescription = [],
                                 Status = ''failed'', Output = None,
                                 Error = ''No start node found in workflow''\<rparr>]\<rparr>)
         | Some current \<Rightarrow>
             Execute_loop w (Edges (Definition workflow)) nodeMap inputs s current [] ''completed'' 0)"

text \<open>
  \<^verbatim>\<open>Execute\<close> as in the second text of executor.go: it makes a map \<^verbatim>\<open>vars\<close>, copies
  the entries of \<^verbatim>\<open>inputs\<close> into it, and the node behaviours work on \<^verbatim>\<open>vars\<close>.
\<close>

definition Execute_vars ::
  "world \<Rightarrow> store \<Rightarrow> Workflow \<Rightarrow> nat \<Rightarrow> (store \<times> ExecutionResponse) option" where
  "Execute_vars w s workflow inputs =
     (case make_map s of
        (vars, s0) \<Rightarrow>
          (let s1 = s0\<lparr>maps := (maps s0)(vars := maps s0 vars ++ maps s0 inputs)\<rparr>;
               nodes = Nodes (Definition workflow);
               nodeMap = nodeMap_of nodes
           in case findNodeByType nodes ''start'' of
                None \<Rightarrow>
                  Some (s1, \<lparr>ExecutedAt = Format_RFC3339 (clock w 0),
                             RespStatus = ''failed'',
                             Steps = [\<lparr>NodeID = ''system'', StepType = ''system'',
                                       StepLabel = ''System Error'', StepDescription = [],
                                       Status = ''failed'', Output = None,
                                       Error = ''No start node found in workflow''\<rparr>]\<rparr>)
              | Some current \<Rightarrow>
                  Execute_loop w (Edges (Definition workflow)) nodeMap vars s1 current []
                    ''completed'' 0))"

section \<open>Vocabulary of the specification\<close>

text \<open>
  The comparison the specification names by its operator; every other operator is
  \<open>greater_than\<close>.
\<close>

definition apply_operator :: "string \<Rightarrow> real \<Rightarrow> real \<Rightarrow> bool" where
  "apply_operator operator temperature threshold =
     (if operator = ''less_than'' then temperature < threshold
      else if operator = ''equals'' then temperature = threshold
      else if operator = ''greater_than_or_equal'' then temperature \<ge> threshold
      else if operator = ''less_than_or_equal'' then temperature \<le> threshold
      else temperature > threshold)"

text \<open>The operator of the Environment: the string under \<open>operator\<close>, else \<open>greater_than\<close>.\<close>

definition operator_of :: "vars \<Rightarrow> string" where
  "operator_of vars =
     (case vars ''operator'' of Some (VString s) \<Rightarrow> s | _ \<Rightarrow> ''greater_than'')"

text \<open>The threshold of the Environment: a number, or an integer coerced to a number.\<close>

definition threshold_of :: "vars \<Rightarrow> real option" where
  "threshold_of vars =
     (case vars ''threshold'' of
        Some (VFloat threshold) \<Rightarrow> Some threshold
      | Some (VInt thresholdInt) \<Rightarrow> Some (float64_of_int thresholdInt)
      | _ \<Rightarrow> None)"

section \<open>Vocabulary for the walk\<close>

text \<open>
  The shape of a returned trace: every step but the last is completed, and the last
  step and the overall status are both completed or both failed.
\<close>

definition trace_shape :: "ExecutionResponse \<Rightarrow> bool" where
  "trace_shape response =
     (\<exists>before step. Steps response = before @ [step] \<and>
        (\<forall>st \<in> set before. Status st = ''completed'') \<and>
        ((Status step = ''completed'' \<and> RespStatus response = ''completed'') \<or>
         (Status step = ''failed'' \<and> RespStatus response = ''failed'')))"

text \<open>
  The values of the loop variables (store, current node, trace, status, number of
  interactions) at the head of the loop, after any number of passes through its body
  that went on to a next node.
\<close>

inductive Execute_visits ::
  "world \<Rightarrow> Edge list \<Rightarrow> (string \<rightharpoonup> Node) \<Rightarrow> nat \<Rightarrow>
   store \<times> Node \<times> ExecutionStep list \<times> string \<times> nat \<Rightarrow>
   store \<times> Node \<times> ExecutionStep list \<times> string \<times> nat \<Rightarrow> bool"
  for w edges nodeMap r
  where
    entry: "Execute_visits w edges nodeMap r loopVars loopVars"
  | pass: "Execute_visits w edges nodeMap r loopVars (s, current, steps, status, k) \<Longrightarrow>
           Execute_iteration w edges nodeMap r s current steps status k = Inr loopVars' \<Longrightarrow>
           Execute_visits w edges nodeMap r loopVars loopVars'"

code_pred (modes: i \<Rightarrow> i \<Rightarrow> i \<Rightarrow> i \<Rightarrow> i \<Rightarrow> o \<Rightarrow> bool) Execute_visits .

text \<open>
  A step without its readings of the clock: in the output of an email step the entry
  \<open>messageId\<close> is removed and the entry \<open>timestamp\<close> of the \<open>emailDraft\<close> is
  removed; every other step is left as it is.
\<close>

definition untimed_value :: "val \<Rightarrow> val" where
  "untimed_value v =
     (case v of
        VMap entries \<Rightarrow> VMap (filter (\<lambda>entry. fst entry \<noteq> ''timestamp'') entries)
      | _ \<Rightarrow> v)"

definition untimed :: "ExecutionStep \<Rightarrow> ExecutionStep" where
  "untimed step =
     (if StepType step = ''email'' then
        step\<lparr>Output :=
          map_option
            (\<lambda>output. output(''messageId'' := None,
                              ''emailDraft'' := map_option untimed_value (output ''emailDraft'')))
            (Output step)\<rparr>
      else step)"

text \<open>
  Two passes through the body of the loop end the same way: both return or both go on,
  with the same store, status, next node and number of interactions, and with traces
  that agree up to the readings of the clock.
\<close>

fun same_pass ::
  "(store \<times> ExecutionResponse) + (store \<times> Node \<times> ExecutionStep list \<times> string \<times> nat) \<Rightarrow>
   (store \<times> ExecutionResponse) + (store \<times> Node \<times> ExecutionStep list \<times> string \<times> nat) \<Rightarrow>
   bool" where
  "same_pass (Inl (s1, response1)) (Inl (s2, response2)) =
     (s1 = s2 \<and> RespStatus response1 = RespStatus response2 \<and>
      map untimed (Steps response1) = map untimed (Steps response2))"
| "same_pass (Inr (s1, node1, steps1, status1, k1)) (Inr (s2, node2, steps2, status2, k2)) =
     (s1 = s2 \<and> node1 = node2 \<and> status1 = status2 \<and> k1 = k2 \<and>
      map untimed steps1 = map untimed steps2)"
| "same_pass _ _ = False"

text \<open>
  Two responses agree up to the readings of the clock: same overall status, same node
  ids, types, statuses and errors, same steps without their readings of the clock.
\<close>

definition agree_up_to_clock :: "ExecutionResponse \<Rightarrow> ExecutionResponse \<Rightarrow> bool" where
  "agree_up_to_clock response2 response1 =
     (RespStatus response2 = RespStatus response1 \<and>
      map NodeID (Steps response2) = map NodeID (Steps response1) \<and>
      map StepType (Steps response2) = map StepType (Steps response1) \<and>
      map Status (Steps response2) = map Status (Steps response1) \<and>
      map Error (Steps response2) = map Error (Steps response1) \<and>
      map untimed (Steps response2) = map untimed (Steps response1))"

section \<open>Example data\<close>

text \<open>Two readings of the clock one second apart, and two worlds that differ in the clock only.\<close>

definition time_a :: Time where
  "time_a = \<lparr>tYear = 2025, tMonth = 7, tDay = 14, tHour = 9, tMinute = 30, tSecond = 5,
              tOffset = 0\<rparr>"

definition time_b :: Time where
  "time_b = \<lparr>tYear = 2025, tMonth = 7, tDay = 14, tHour = 9, tMinute = 30, tSecond = 6,
              tOffset = 0\<rparr>"

definition world_a :: world where
  "world_a = \<lparr>clock = (\<lambda>k. time_a), fetchWeather = (\<lambda>k lat lon. Inr 30)\<rparr>"

definition world_b :: world where
  "world_b = \<lparr>clock = (\<lambda>k. time_b), fetchWeather = (\<lambda>k lat lon. Inr 30)\<rparr>"

definition node_of :: "string \<Rightarrow> string \<Rightarrow> Node" where
  "node_of i t = \<lparr>ID = i, Type = t,
                  Data = \<lparr>Label = i, Description = [], Metadata = Map.empty\<rparr>\<rparr>"

definition edge_of :: "string \<Rightarrow> string \<Rightarrow> string \<Rightarrow> Edge" where
  "edge_of src tgt handle = \<lparr>Source = src, Target = tgt, SourceHandle = handle\<rparr>"

text \<open>The edges of the test \<^verbatim>\<open>TestFindNextNodeID\<close>.\<close>

definition test_edges :: "Edge list" where
  "test_edges =
     [edge_of ''start'' ''form'' [],
      edge_of ''form'' ''condition'' [],
      edge_of ''condition'' ''email'' ''true'',
      edge_of ''condition'' ''end'' ''false'']"

text \<open>A store with one map, the caller's inputs, at reference 0.\<close>

definition store_of :: "vars \<Rightarrow> store" where
  "store_of inputs = \<lparr>maps = (\<lambda>r. if r = 0 then inputs else Map.empty), fresh = 1\<rparr>"

definition workflow_of :: "Node list \<Rightarrow> Edge list \<Rightarrow> Workflow" where
  "workflow_of nodes edges = \<lparr>Definition = \<lparr>Nodes = nodes, Edges = edges\<rparr>\<rparr>"

text \<open>An integration node whose options know Sydney.\<close>

definition sydney_node :: Node where
  "sydney_node =
     \<lparr>ID = ''weather'', Type = ''integration'',
      Data = \<lparr>Label = ''Weather'', Description = [],
               Metadata = [''options'' \<mapsto> VList
                  [VMap [(''city'', VString ''Sydney''),
                         (''lat'', VFloat (-33.8688)),
                         (''lon'', VFloat 151.2093)]]]\<rparr>\<rparr>"

text \<open>The variables of the test \<^verbatim>\<open>TestExecutor_ProcessEmailNode\<close>.\<close>

definition email_vars :: "bool \<Rightarrow> vars" where
  "email_vars conditionMet =
     [''email'' \<mapsto> VString ''john@example.com'', ''city'' \<mapsto> VString ''Sydney'',
      ''temperature'' \<mapsto> VFloat 30, ''conditionMet'' \<mapsto> VBool conditionMet]"

definition form_node :: Node where
  "form_node =
     \<lparr>ID = ''form'', Type = ''form'',
      Data = \<lparr>Label = ''Form'', Description = [],
               Metadata = [''inputFields'' \<mapsto> VList [VString ''name'', VString ''email'']]\<rparr>\<rparr>"

definition start_end_workflow :: Workflow where
  "start_end_workflow =
     workflow_of [node_of ''start'' ''start'', node_of ''end'' ''end'']
       [edge_of ''start'' ''end'' []]"

definition form_workflow :: Workflow where
  "form_workflow =
     workflow_of [node_of ''start'' ''start'', form_node, node_of ''end'' ''end'']
       [edge_of ''start'' ''form'' [], edge_of ''form'' ''end'' []]"

text \<open>A graph whose last edge leads to a node id that no node has.\<close>

definition broken_workflow :: Workflow where
  "broken_workflow =
     workflow_of [node_of ''start'' ''start'', node_of ''end'' ''end'']
       [edge_of ''start'' ''end'' [], edge_of ''end'' ''ghost'' []]"

text \<open>A start node followed by a condition node, and inputs for it.\<close>

definition condition_workflow :: Workflow where
  "condition_workflow =
     workflow_of [node_of ''start'' ''start'', node_of ''condition'' ''condition'']
       [edge_of ''start'' ''condition'' []]"

definition condition_vars :: vars where
  "condition_vars = [''temperature'' \<mapsto> VFloat 30, ''threshold'' \<mapsto> VFloat 25]"

text \<open>A start node followed by an email node.\<close>

definition email_workflow :: Workflow where
  "email_workflow =
     workflow_of [node_of ''start'' ''start'', node_of ''email'' ''email'']
       [edge_of ''start'' ''email'' []]"

text \<open>The message ids in the outputs of the steps of a result.\<close>

definition messageIds :: "(store \<times> ExecutionResponse) option \<Rightarrow> val option list option" where
  "messageIds result =
     map_option
       (\<lambda>result. map (\<lambda>step. case Output step of
                                  None \<Rightarrow> None
                                | Some output \<Rightarrow> output ''messageId'')
                      (Steps (snd result)))
       result"

text \<open>A start node with an edge to itself.\<close>

definition cycle_workflow :: Workflow where
  "cycle_workflow =
     workflow_of [node_of ''start'' ''start''] [edge_of ''start'' ''start'' []]"

text \<open>A start node followed by an email node and then a condition node.\<close>

definition email_condition_workflow :: Workflow where
  "email_condition_workflow =
     workflow_of [node_of ''start'' ''start'', node_of ''email'' ''email'',
                  node_of ''condition'' ''condition'']
       [edge_of ''start'' ''email'' [], edge_of ''email'' ''condition'' []]"

section \<open>Properties of edge resolution\<close>

lemma findNextNodeID_skip:
  "\<not> (Source edge = currentNodeID \<and> edge_matches vars edge) \<Longrightarrow>
   findNextNodeID (edge # edges) currentNodeID vars = findNextNodeID edges currentNodeID vars"
  by (auto simp: edge_matches_def split: option.splits val.splits)

lemma findNextNodeID_take:
  "Source edge = currentNodeID \<Longrightarrow> edge_matches vars edge \<Longrightarrow>
   findNextNodeID (edge # edges) currentNodeID vars = Target edge"
  by (auto simp: edge_matches_def split: option.splits val.splits)

text \<open>
  C2. Edge resolution returns the target of the first edge, in declared order, whose
  source is the current node id and which matches (empty tag: always; tag \<open>true\<close>:
  \<open>conditionMet\<close> present and boolean true; tag \<open>false\<close>: present and boolean false).
  If no edge matches the result is the empty string, which the walker reads as "no
  next node".
\<close>

theorem findNextNodeID_first_match:
  "findNextNodeID edges currentNodeID vars =
     (case resolve_spec edges currentNodeID vars of
        None \<Rightarrow> ''''
      | Some target \<Rightarrow> target)"
proof (induction edges)
  case Nil
  show ?case by (simp add: resolve_spec_def)
next
  case (Cons edge edges)
  show ?case
  proof (cases "Source edge = currentNodeID \<and> edge_matches vars edge")
    case True
    then have "findNextNodeID (edge # edges) currentNodeID vars = Target edge"
      by (intro findNextNodeID_take) simp_all
    with True show ?thesis
      by (simp add: resolve_spec_def)
  next
    case False
    then have "findNextNodeID (edge # edges) currentNodeID vars =
               findNextNodeID edges currentNodeID vars"
      by (rule findNextNodeID_skip)
    with False Cons show ?thesis
      by (auto simp: resolve_spec_def)
  qed
qed

theorem findNextNodeID_first_match_witness:
  "findNextNodeID test_edges ''condition'' [''conditionMet'' \<mapsto> VBool True] = ''email'' \<and>
   findNextNodeID test_edges ''condition'' [''conditionMet'' \<mapsto> VBool False] = ''end'' \<and>
   findNextNodeID test_edges ''condition'' Map.empty = []"
  using findNextNodeID_first_match [of test_edges "''condition''" "[''conditionMet'' \<mapsto> VBool True]"]
        findNextNodeID_first_match [of test_edges "''condition''" "[''conditionMet'' \<mapsto> VBool False]"]
        findNextNodeID_first_match [of test_edges "''condition''" Map.empty]
  by (simp add: resolve_spec_def edge_matches_def test_edges_def edge_of_def)

text \<open>
  C10. An edge whose branch tag is a non-empty string other than \<open>true\<close> and \<open>false\<close>
  is never selected, whatever \<open>conditionMet\<close> is: the scan goes on with the later
  edges, so the result is the one for the edge list without that edge. When such an
  edge is the only edge, there is no next node.
\<close>

theorem findNextNodeID_unknown_tag:
  assumes "SourceHandle edge \<noteq> []"
      and "SourceHandle edge \<noteq> ''true''"
      and "SourceHandle edge \<noteq> ''false''"
  shows "findNextNodeID (before @ edge # after) currentNodeID vars =
           findNextNodeID (before @ after) currentNodeID vars \<and>
         findNextNodeID [edge] currentNodeID vars = []"
proof
  have skip: "findNextNodeID (edge # edges) currentNodeID vars =
              findNextNodeID edges currentNodeID vars" for edges
    using assms by (intro findNextNodeID_skip) (simp add: edge_matches_def)
  show "findNextNodeID (before @ edge # after) currentNodeID vars =
        findNextNodeID (before @ after) currentNodeID vars"
  proof (induction before)
    case Nil
    show ?case using skip [of after] by simp
  next
    case (Cons e before)
    then show ?case by (simp split: option.splits val.splits)
  qed
  show "findNextNodeID [edge] currentNodeID vars = []"
    using skip [of "[]"] by simp
qed

theorem findNextNodeID_unknown_tag_witness:
  "findNextNodeID
     [edge_of ''condition'' ''email'' ''maybe'', edge_of ''condition'' ''end'' ''true'']
     ''condition'' [''conditionMet'' \<mapsto> VBool True] = ''end'' \<and>
   findNextNodeID [edge_of ''condition'' ''email'' ''maybe''] ''condition''
     [''conditionMet'' \<mapsto> VBool True] = []"
  using findNextNodeID_unknown_tag
          [of "edge_of ''condition'' ''email'' ''maybe''" "[]"
              "[edge_of ''condition'' ''end'' ''true'']" "''condition''"
              "[''conditionMet'' \<mapsto> VBool True]"]
  by (simp add: edge_of_def)

section \<open>Properties of the graph walker\<close>

lemma findNodeByType_None:
  "findNodeByType nodes nodeType = None \<longleftrightarrow> (\<forall>node \<in> set nodes. Type node \<noteq> nodeType)"
  by (induction nodes) auto

text \<open>
  C5. For a graph with no node of type \<open>start\<close>, \<open>Execute\<close> returns at once: the
  status is \<open>failed\<close>, the trace is the single step with node id \<open>system\<close>, type
  \<open>system\<close> and error \<open>No start node found in workflow\<close>; the store is unchanged, and
  the only interaction with the outside world is the reading of the clock for the
  timestamp.
\<close>

theorem Execute_no_start_node:
  assumes "\<forall>node \<in> set (Nodes (Definition workflow)). Type node \<noteq> ''start''"
  shows "Execute w s workflow inputs =
           Some (s, \<lparr>ExecutedAt = Format_RFC3339 (clock w 0),
                     RespStatus = ''failed'',
                     Steps = [\<lparr>NodeID = ''system'', StepType = ''system'',
                               StepLabel = ''System Error'', StepDescription = [],
                               Status = ''failed'', Output = None,
                               Error = ''No start node found in workflow''\<rparr>]\<rparr>)"
proof -
  from assms have "findNodeByType (Nodes (Definition workflow)) ''start'' = None"
    by (simp add: findNodeByType_None)
  then show ?thesis
    by (simp add: Execute_def)
qed

theorem Execute_no_start_node_witness:
  "Execute world_a (store_of Map.empty) (workflow_of [node_of ''end'' ''end''] []) 0 =
     Some (store_of Map.empty,
           \<lparr>ExecutedAt = ''2025-07-14T09:30:05Z'',
            RespStatus = ''failed'',
            Steps = [\<lparr>NodeID = ''system'', StepType = ''system'',
                      StepLabel = ''System Error'', StepDescription = [],
                      Status = ''failed'', Output = None,
                      Error = ''No start node found in workflow''\<rparr>]\<rparr>)"
  using Execute_no_start_node
          [of "workflow_of [node_of ''end'' ''end''] []" world_a "store_of Map.empty" 0]
  by (simp add: workflow_of_def node_of_def world_a_def time_a_def Format_RFC3339_def
        pad2_def pad4_def digit_def)

section \<open>Properties of the node behaviours\<close>

lemma bitlen_le: "n < 2 ^ k \<Longrightarrow> bitlen n \<le> k"
proof (induction k arbitrary: n)
  case 0
  then show ?case by (simp add: bitlen.simps)
next
  case (Suc k)
  show ?case
  proof (cases "n = 0")
    case True
    then show ?thesis by (simp add: bitlen.simps)
  next
    case False
    from Suc.prems have "n div 2 < 2 ^ k" by simp
    then have "bitlen (n div 2) \<le> k" by (rule Suc.IH)
    with False show ?thesis by (subst bitlen.simps) simp
  qed
qed

lemma float64_of_int_exact: "\<bar>i\<bar> < 2 ^ 53 \<Longrightarrow> float64_of_int i = of_int i"
proof -
  assume a: "\<bar>i\<bar> < 2 ^ 53"
  then have "nat \<bar>i\<bar> < 2 ^ 53" by (simp add: nat_less_iff)
  then have "bitlen (nat \<bar>i\<bar>) \<le> 53" by (rule bitlen_le)
  then have e: "bitlen (nat \<bar>i\<bar>) - 53 = 0" by simp
  have "float64_of_int i = (if i < 0 then - real (nat \<bar>i\<bar>) else real (nat \<bar>i\<bar>))"
    unfolding float64_of_int_def Let_def e by simp
  then show ?thesis by simp
qed

lemma processConditionNode_Inr:
  assumes "vars ''temperature'' = Some (VFloat temperature)"
      and "threshold_of vars = Some threshold"
  shows "\<exists>step'. processConditionNode vars step =
           Inr (vars(''conditionMet'' \<mapsto>
                  VBool (apply_operator (operator_of vars) temperature threshold)), step')"
  using assms
  by (auto simp: processConditionNode_def threshold_of_def apply_operator_def operator_of_def Let_def
      split: option.splits val.splits)

lemma processConditionNode_Inl:
  "(\<exists>err. processConditionNode vars step = Inl err) \<longleftrightarrow>
     (\<nexists>temperature. vars ''temperature'' = Some (VFloat temperature)) \<or>
     ((\<nexists>threshold. vars ''threshold'' = Some (VFloat threshold)) \<and>
      (\<nexists>thresholdInt. vars ''threshold'' = Some (VInt thresholdInt)))"
  by (auto simp: processConditionNode_def Let_def split: option.splits val.splits)

lemma processConditionNode_int:
  "map_sum id (\<lambda>(vars', step'). (vars' ''conditionMet'', step'))
      (processConditionNode (vars(''threshold'' \<mapsto> VInt thresholdInt)) step) =
   map_sum id (\<lambda>(vars', step'). (vars' ''conditionMet'', step'))
      (processConditionNode (vars(''threshold'' \<mapsto> VFloat (float64_of_int thresholdInt))) step)"
  by (auto simp: processConditionNode_def Let_def split: option.splits val.splits)


lemma processEmailNode_not_met:
  assumes "vars ''conditionMet'' \<noteq> Some (VBool True)"
  shows "processEmailNode w k vars step =
           (Inr (vars, step\<lparr>Output := Some
                   [''emailSent'' \<mapsto> VBool False,
                    ''message'' \<mapsto> VString ''Condition not met, no email sent'']\<rparr>), k)"
  using assms
  by (auto simp: processEmailNode_def split: option.splits val.splits bool.splits)

lemma processEmailNode_fails_iff:
  assumes "vars ''conditionMet'' = Some (VBool True)"
  shows "(\<exists>err. fst (processEmailNode w k vars step) = Inl err) \<longleftrightarrow>
           (\<nexists>city. vars ''city'' = Some (VString city)) \<or>
           (\<nexists>temperature. vars ''temperature'' = Some (VFloat temperature)) \<or>
           (\<nexists>email. vars ''email'' = Some (VString email))"
  using assms
  by (auto simp: processEmailNode_def Let_def split: option.splits val.splits)

lemma processEmailNode_sent:
  assumes "vars ''conditionMet'' = Some (VBool True)"
      and "fst (processEmailNode w k vars step) = Inr (vars', step')"
  shows "\<exists>output messageId. Output step' = Some output \<and>
           output ''emailSent'' = Some (VBool True) \<and>
           output ''messageId'' = Some (VString messageId) \<and> messageId \<noteq> []"
  using assms
  by (auto simp: processEmailNode_def Let_def split: option.splits val.splits)

lemma processIntegrationNode_fails_iff:
  "(\<exists>err. fst (processIntegrationNode w k node vars step) = Inl err) \<longleftrightarrow>
     (\<nexists>city. vars ''city'' = Some (VString city)) \<or>
     (\<exists>city. vars ''city'' = Some (VString city) \<and>
        (getCityCoordinates node city = (0, 0) \<or>
         (\<exists>err. fetchWeather w k (fst (getCityCoordinates node city))
                   (snd (getCityCoordinates node city)) = Inl err)))"
  by (auto simp: processIntegrationNode_def split: option.splits val.splits prod.splits sum.splits)

lemma processIntegrationNode_success:
  assumes "fst (processIntegrationNode w k node vars step) = Inr (vars', step')"
  shows "\<exists>city lat lon temperature.
           vars ''city'' = Some (VString city) \<and>
           getCityCoordinates node city = (lat, lon) \<and>
           fetchWeather w k lat lon = Inr temperature \<and>
           vars' = vars(''temperature'' \<mapsto> VFloat temperature) \<and>
           step' = step\<lparr>Output := Some [''temperature'' \<mapsto> VFloat temperature,
                                         ''location'' \<mapsto> VString city]\<rparr>"
  using assms
  by (auto simp: processIntegrationNode_def split: option.splits val.splits prod.splits sum.splits if_splits)

text \<open>
  C6. Condition behaviour. When \<open>temperature\<close> is a number (a float64) and \<open>threshold\<close>
  is a number or an integer, the behaviour succeeds and writes into the Environment
  \<open>conditionMet\<close>, the operator applied to temperature and threshold; the operator is
  the string under \<open>operator\<close> and counts as \<open>greater_than\<close> when it is absent, not a
  string or not one of the five names. The behaviour fails exactly when the read of
  \<open>temperature\<close> as a number finds nothing (no entry, or an entry that is not a
  float64), or the read of \<open>threshold\<close> finds neither a number nor an integer. An
  integer threshold gives the same result, the same \<open>conditionMet\<close> and the same step
  as the float64 it converts to, which below \<open>2^53\<close> is the equal number.
\<close>

theorem processConditionNode_correct:
  "(\<forall>temperature threshold.
      vars ''temperature'' = Some (VFloat temperature) \<longrightarrow>
      threshold_of vars = Some threshold \<longrightarrow>
      (\<exists>step'. processConditionNode vars step =
         Inr (vars(''conditionMet'' \<mapsto>
                VBool (apply_operator (operator_of vars) temperature threshold)), step'))) \<and>
   ((\<exists>err. processConditionNode vars step = Inl err) \<longleftrightarrow>
      (\<nexists>temperature. vars ''temperature'' = Some (VFloat temperature)) \<or>
      ((\<nexists>threshold. vars ''threshold'' = Some (VFloat threshold)) \<and>
       (\<nexists>thresholdInt. vars ''threshold'' = Some (VInt thresholdInt)))) \<and>
   map_sum id (\<lambda>(vars', step'). (vars' ''conditionMet'', step'))
      (processConditionNode (vars(''threshold'' \<mapsto> VInt thresholdInt)) step) =
   map_sum id (\<lambda>(vars', step'). (vars' ''conditionMet'', step'))
      (processConditionNode (vars(''threshold'' \<mapsto> VFloat (float64_of_int thresholdInt))) step) \<and>
   (\<bar>thresholdInt\<bar> < 2 ^ 53 \<longrightarrow> float64_of_int thresholdInt = of_int thresholdInt)"
  using processConditionNode_Inr [of vars _ _ step] processConditionNode_Inl [of vars step]
    processConditionNode_int [of vars thresholdInt step] float64_of_int_exact [of thresholdInt]
  by blast

theorem processConditionNode_correct_witness:
  "(\<exists>step'. processConditionNode
      [''temperature'' \<mapsto> VFloat 30, ''threshold'' \<mapsto> VInt 25, ''operator'' \<mapsto> VString ''greater_than'']
      (new_step (node_of ''condition'' ''condition'')) =
    Inr ([''temperature'' \<mapsto> VFloat 30, ''threshold'' \<mapsto> VInt 25,
          ''operator'' \<mapsto> VString ''greater_than'', ''conditionMet'' \<mapsto> VBool True], step')) \<and>
   float64_of_int 25 = 25"
proof -
  note c = processConditionNode_correct
             [of "[''temperature'' \<mapsto> VFloat 30, ''threshold'' \<mapsto> VInt 25,
                   ''operator'' \<mapsto> VString ''greater_than'']"
                 "new_step (node_of ''condition'' ''condition'')" 25]
  from c have exact: "float64_of_int 25 = 25"
    by simp
  from c exact show ?thesis
    by (simp add: threshold_of_def operator_of_def apply_operator_def)
qed

text \<open>
  C7. Email behaviour. When \<open>conditionMet\<close> is not the boolean true (absent, false, or
  not a boolean) the behaviour succeeds, whatever the other variables are, with output
  \<open>{emailSent: false, message: "Condition not met, no email sent"}\<close> and the
  Environment unchanged. When \<open>conditionMet\<close> is true it fails exactly when the read
  of \<open>city\<close> (a string), \<open>temperature\<close> (a float64) or \<open>email\<close> (a string) finds
  nothing: this is the sense of "missing" here, as in the error text
  \<open>... not found in variables\<close>. Otherwise it succeeds with \<open>emailSent: true\<close> and a
  non-empty \<open>messageId\<close> in the output.
\<close>

theorem processEmailNode_correct:
  "(vars ''conditionMet'' \<noteq> Some (VBool True) \<longrightarrow>
      processEmailNode w k vars step =
        (Inr (vars, step\<lparr>Output := Some
                [''emailSent'' \<mapsto> VBool False,
                 ''message'' \<mapsto> VString ''Condition not met, no email sent'']\<rparr>), k)) \<and>
   (vars ''conditionMet'' = Some (VBool True) \<longrightarrow>
      ((\<exists>err. fst (processEmailNode w k vars step) = Inl err) \<longleftrightarrow>
         (\<nexists>city. vars ''city'' = Some (VString city)) \<or>
         (\<nexists>temperature. vars ''temperature'' = Some (VFloat temperature)) \<or>
         (\<nexists>email. vars ''email'' = Some (VString email))) \<and>
      (\<forall>vars' step'. fst (processEmailNode w k vars step) = Inr (vars', step') \<longrightarrow>
         (\<exists>output messageId. Output step' = Some output \<and>
            output ''emailSent'' = Some (VBool True) \<and>
            output ''messageId'' = Some (VString messageId) \<and> messageId \<noteq> [])))"
  using processEmailNode_not_met [of vars w k step]
    processEmailNode_fails_iff [of vars w k step]
    processEmailNode_sent [of vars w k step]
  by blast

theorem processEmailNode_correct_witness:
  "processEmailNode world_a 0 (email_vars False) (new_step (node_of ''email'' ''email'')) =
     (Inr (email_vars False,
           (new_step (node_of ''email'' ''email''))\<lparr>Output := Some
              [''emailSent'' \<mapsto> VBool False,
               ''message'' \<mapsto> VString ''Condition not met, no email sent'']\<rparr>), 0) \<and>
   (\<nexists>err. fst (processEmailNode world_a 0 (email_vars True)
                  (new_step (node_of ''email'' ''email''))) = Inl err) \<and>
   (\<exists>err. fst (processEmailNode world_a 0 ((email_vars True)(''email'' := None))
                  (new_step (node_of ''email'' ''email''))) = Inl err)"
  using processEmailNode_correct
          [of "email_vars False" world_a 0 "new_step (node_of ''email'' ''email'')"]
        processEmailNode_correct
          [of "email_vars True" world_a 0 "new_step (node_of ''email'' ''email'')"]
        processEmailNode_correct
          [of "(email_vars True)(''email'' := None)" world_a 0
              "new_step (node_of ''email'' ''email'')"]
  by (simp add: email_vars_def)

text \<open>
  C8. Integration behaviour. It fails exactly when the read of \<open>city\<close> as a string
  finds nothing, or the options of the node resolve the city to the coordinates
  \<open>(0, 0)\<close>, or the lookup at the resolved coordinates returns an error (which
  includes its timeout). When it succeeds, the Environment is the old one with the
  returned reading under \<open>temperature\<close>, and the output of the step is
  \<open>{temperature, location}\<close> with the reading and the city.
\<close>

theorem processIntegrationNode_correct:
  "((\<exists>err. fst (processIntegrationNode w k node vars step) = Inl err) \<longleftrightarrow>
      (\<nexists>city. vars ''city'' = Some (VString city)) \<or>
      (\<exists>city. vars ''city'' = Some (VString city) \<and>
         (getCityCoordinates node city = (0, 0) \<or>
          (\<exists>err. fetchWeather w k (fst (getCityCoordinates node city))
                    (snd (getCityCoordinates node city)) = Inl err)))) \<and>
   (\<forall>vars' step'. fst (processIntegrationNode w k node vars step) = Inr (vars', step') \<longrightarrow>
      (\<exists>city lat lon temperature.
         vars ''city'' = Some (VString city) \<and>
         getCityCoordinates node city = (lat, lon) \<and>
         fetchWeather w k lat lon = Inr temperature \<and>
         vars' = vars(''temperature'' \<mapsto> VFloat temperature) \<and>
         step' = step\<lparr>Output := Some [''temperature'' \<mapsto> VFloat temperature,
                                       ''location'' \<mapsto> VString city]\<rparr>))"
  using processIntegrationNode_fails_iff [of w k node vars step]
    processIntegrationNode_success [of w k node vars step]
  by blast

theorem processIntegrationNode_correct_witness:
  "(\<nexists>err. fst (processIntegrationNode world_a 0 sydney_node [''city'' \<mapsto> VString ''Sydney'']
                  (new_step sydney_node)) = Inl err) \<and>
   (\<exists>err. fst (processIntegrationNode world_a 0 sydney_node [''city'' \<mapsto> VString ''Perth'']
                  (new_step sydney_node)) = Inl err) \<and>
   (\<exists>err. fst (processIntegrationNode world_a 0 sydney_node Map.empty
                  (new_step sydney_node)) = Inl err)"
  using processIntegrationNode_correct
          [of world_a 0 sydney_node "[''city'' \<mapsto> VString ''Sydney'']" "new_step sydney_node"]
        processIntegrationNode_correct
          [of world_a 0 sydney_node "[''city'' \<mapsto> VString ''Perth'']" "new_step sydney_node"]
        processIntegrationNode_correct
          [of world_a 0 sydney_node Map.empty "new_step sydney_node"]
  by (simp add: getCityCoordinates_def sydney_node_def world_a_def)

section \<open>Properties of the loop of Execute\<close>

lemma Execute_case_status:
  assumes "Execute_case result vars step status = (vars', step', status')"
      and "\<And>v st. result = Inr (v, st) \<Longrightarrow> Status st = Status step"
      and "Status step = ''completed''"
  shows "(Status step' = ''failed'' \<and> status' = ''failed'') \<or>
         (Status step' = ''completed'' \<and> status' = status)"
  using assms by (auto simp: Execute_case_def split: sum.splits)

lemma processFormNode_Status:
  "processFormNode node vars step = Inr (vars', step') \<Longrightarrow> Status step' = Status step"
  by (auto simp: processFormNode_def split: option.splits val.splits sum.splits)

lemma processIntegrationNode_Status:
  "processIntegrationNode w k node vars step = (Inr (vars', step'), k') \<Longrightarrow> Status step' = Status step"
  by (auto simp: processIntegrationNode_def split: option.splits val.splits sum.splits prod.splits if_splits)

lemma processConditionNode_Status:
  "processConditionNode vars step = Inr (vars', step') \<Longrightarrow> Status step' = Status step"
  by (auto simp: processConditionNode_def Let_def split: option.splits val.splits sum.splits)

lemma processEmailNode_Status:
  "processEmailNode w k vars step = (Inr (vars', step'), k') \<Longrightarrow> Status step' = Status step"
  by (auto simp: processEmailNode_def Let_def split: option.splits val.splits sum.splits bool.splits)

lemma Execute_switch_status:
  assumes "Execute_switch w k current vars step status = ((vars', step', status'), k')"
      and "Status step = ''completed''"
  shows "(Status step' = ''failed'' \<and> status' = ''failed'') \<or>
         (Status step' = ''completed'' \<and> status' = status)"
proof -
  consider (start) "Type current = ''start''" | (form) "Type current = ''form''"
    | (integration) "Type current = ''integration''" | (condition) "Type current = ''condition''"
    | (email) "Type current = ''email''" | (end') "Type current = ''end''"
    | (other) "Type current \<notin> {''start'', ''form'', ''integration'', ''condition'', ''email'', ''end''}"
    by auto
  then show ?thesis
  proof cases
    case start
    with assms show ?thesis by (simp add: Execute_switch_def)
  next
    case form
    with assms have "Execute_case (processFormNode current vars step) vars step status = (vars', step', status')"
      by (simp add: Execute_switch_def)
    then show ?thesis
      by (rule Execute_case_status) (auto dest: processFormNode_Status simp: assms(2))
  next
    case integration
    with assms have "Execute_case (fst (processIntegrationNode w k current vars step)) vars step status = (vars', step', status')"
      by (simp add: Execute_switch_def split: prod.splits)
    then show ?thesis
      by (rule Execute_case_status)
         (metis processIntegrationNode_Status prod.collapse, simp add: assms(2))
  next
    case condition
    with assms have "Execute_case (processConditionNode vars step) vars step status = (vars', step', status')"
      by (simp add: Execute_switch_def)
    then show ?thesis
      by (rule Execute_case_status) (auto dest: processConditionNode_Status simp: assms(2))
  next
    case email
    with assms have "Execute_case (fst (processEmailNode w k vars step)) vars step status = (vars', step', status')"
      by (simp add: Execute_switch_def split: prod.splits)
    then show ?thesis
      by (rule Execute_case_status)
         (metis processEmailNode_Status prod.collapse, simp add: assms(2))
  next
    case end'
    with assms show ?thesis by (simp add: Execute_switch_def)
  next
    case other
    with assms show ?thesis by (auto simp: Execute_switch_def)
  qed
qed


lemma Execute_iteration_Inl:
  assumes "Execute_iteration w edges nodeMap r s current steps status k = Inl (s', response)"
  shows "\<exists>vars' step status' k'.
           Execute_switch w k current (maps s r) (new_step current) status =
             ((vars', step, status'), k') \<and>
           s' = s\<lparr>maps := (maps s)(r := vars')\<rparr> \<and>
           response = \<lparr>ExecutedAt = Format_RFC3339 (clock w k'),
                        RespStatus = status', Steps = steps @ [step]\<rparr> \<and>
           (Status step = ''failed'' \<or>
            findNextNodeID edges (ID current) vars' = [] \<or>
            nodeMap (findNextNodeID edges (ID current) vars') = None)"
  using assms
  by (auto simp: Execute_iteration_def Let_def split: prod.splits if_splits option.splits)

lemma Execute_iteration_Inr:
  assumes "Execute_iteration w edges nodeMap r s current steps status k =
             Inr (s', nextNode, steps', status', k')"
  shows "\<exists>vars' step.
           Execute_switch w k current (maps s r) (new_step current) status =
             ((vars', step, status'), k') \<and>
           s' = s\<lparr>maps := (maps s)(r := vars')\<rparr> \<and>
           steps' = steps @ [step] \<and>
           Status step \<noteq> ''failed'' \<and>
           findNextNodeID edges (ID current) vars' \<noteq> [] \<and>
           nodeMap (findNextNodeID edges (ID current) vars') = Some nextNode"
  using assms
  by (auto simp: Execute_iteration_def Let_def split: prod.splits if_splits option.splits)

lemma new_step_Status: "Status (new_step current) = ''completed''"
  by (simp add: new_step_def)

lemma Execute_loop_trace_shape:
  assumes run: "Execute_loop w edges nodeMap r s current steps status k = Some y"
  shows "(\<forall>st \<in> set steps. Status st = ''completed'') \<longrightarrow> status = ''completed'' \<longrightarrow>
         trace_shape (snd y)"
proof (rule Execute_loop.raw_induct
         [where P = "\<lambda>w edges nodeMap r s current steps status k y.
            (\<forall>st \<in> set steps. Status st = ''completed'') \<longrightarrow> status = ''completed'' \<longrightarrow>
            trace_shape (snd y)", OF _ run])
  fix loop w edges nodeMap r s current steps status k y
  assume IH: "\<And>w edges nodeMap r s current steps status k y.
                loop w edges nodeMap r s current steps status k = Some y \<Longrightarrow>
                (\<forall>st \<in> set steps. Status st = ''completed'') \<longrightarrow> status = ''completed'' \<longrightarrow>
                trace_shape (snd y)"
     and body: "(case Execute_iteration w edges nodeMap r s current steps status k of
                   Inl result \<Rightarrow> Some result
                 | Inr (s', nextNode, steps', status', k') \<Rightarrow>
                     loop w edges nodeMap r s' nextNode steps' status' k') = Some y"
  show "(\<forall>st \<in> set steps. Status st = ''completed'') \<longrightarrow> status = ''completed'' \<longrightarrow>
        trace_shape (snd y)"
  proof (intro impI)
    assume steps: "\<forall>st \<in> set steps. Status st = ''completed''" and status: "status = ''completed''"
    show "trace_shape (snd y)"
    proof (cases "Execute_iteration w edges nodeMap r s current steps status k")
      case (Inl result)
      with body have y: "y = result" by simp
      obtain s' response where result: "result = (s', response)" by (cases result)
      from Execute_iteration_Inl [OF Inl [unfolded result]]
      obtain vars' step status' k' where
        sw: "Execute_switch w k current (maps s r) (new_step current) status =
               ((vars', step, status'), k')"
        and resp: "response = \<lparr>ExecutedAt = Format_RFC3339 (clock w k'),
                        RespStatus = status', Steps = steps @ [step]\<rparr>"
        by blast
      from Execute_switch_status [OF sw new_step_Status] status steps resp
      show ?thesis
        by (auto simp: trace_shape_def y result)
    next
      case (Inr cont)
      obtain s' nextNode steps' status' k' where
        nxt: "cont = (s', nextNode, steps', status', k')" by (cases cont)
      from body Inr nxt have rec: "loop w edges nodeMap r s' nextNode steps' status' k' = Some y"
        by simp
      from Execute_iteration_Inr [OF Inr [unfolded nxt]]
      obtain vars' step where
        sw: "Execute_switch w k current (maps s r) (new_step current) status =
               ((vars', step, status'), k')"
        and st: "steps' = steps @ [step]" and ok: "Status step \<noteq> ''failed''"
        by blast
      from Execute_switch_status [OF sw new_step_Status] ok
      have "Status step = ''completed''" "status' = status" by auto
      with IH [OF rec] steps status st show ?thesis by auto
    qed
  qed
qed


lemma findNextNodeID_edge:
  "findNextNodeID edges currentNodeID vars = target \<Longrightarrow> target \<noteq> [] \<Longrightarrow>
   \<exists>edge \<in> set edges. Source edge = currentNodeID \<and> Target edge = target"
  by (induction edges) (auto split: if_splits option.splits val.splits)

lemma nodeMap_fold_ID:
  "fold (\<lambda>node nodeMap. nodeMap(ID node \<mapsto> node)) nodes m i = Some n \<Longrightarrow>
   (\<forall>j n'. m j = Some n' \<longrightarrow> ID n' = j) \<Longrightarrow> ID n = i"
  by (induction nodes arbitrary: m) (auto split: if_splits)

lemma nodeMap_of_ID: "nodeMap_of nodes i = Some n \<Longrightarrow> ID n = i"
  unfolding nodeMap_of_def by (erule nodeMap_fold_ID) simp

lemma nodeMap_fold_None:
  "fold (\<lambda>node nodeMap. nodeMap(ID node \<mapsto> node)) nodes m i = None \<longleftrightarrow>
   m i = None \<and> i \<notin> ID ` set nodes"
  by (induction nodes arbitrary: m) auto

lemma nodeMap_of_None: "nodeMap_of nodes i = None \<longleftrightarrow> i \<notin> ID ` set nodes"
  by (simp add: nodeMap_of_def nodeMap_fold_None)

lemma Execute_loop_returns:
  assumes rank: "\<forall>edge \<in> set edges. rank (Target edge) < (rank (Source edge) :: nat)"
      and ids: "\<forall>i n. nodeMap i = Some n \<longrightarrow> ID n = i"
  shows "\<exists>y. Execute_loop w edges nodeMap r s current steps status k = Some y"
proof (induction "rank (ID current)" arbitrary: s current steps status k rule: less_induct)
  case less
  show ?case
  proof (cases "Execute_iteration w edges nodeMap r s current steps status k")
    case (Inl result)
    then show ?thesis by (subst Execute_loop.simps) simp
  next
    case (Inr cont)
    obtain s' nextNode steps' status' k' where
      nxt: "cont = (s', nextNode, steps', status', k')" by (cases cont)
    from Execute_iteration_Inr [OF Inr [unfolded nxt]]
    obtain vars' where
      ne: "findNextNodeID edges (ID current) vars' \<noteq> []"
      and nm: "nodeMap (findNextNodeID edges (ID current) vars') = Some nextNode"
      by blast
    from findNextNodeID_edge [OF refl ne]
    obtain edge where "edge \<in> set edges" "Source edge = ID current"
      "Target edge = findNextNodeID edges (ID current) vars'" by blast
    moreover from ids nm have "ID nextNode = findNextNodeID edges (ID current) vars'" by blast
    ultimately have "rank (ID nextNode) < rank (ID current)"
      using rank by auto
    from less [OF this]
    obtain y where "Execute_loop w edges nodeMap r s' nextNode steps' status' k' = Some y"
      by blast
    with Inr nxt show ?thesis by (subst Execute_loop.simps) simp
  qed
qed


lemmas run_defs =
  Execute_def Execute_iteration_def Execute_switch_def Execute_case_def new_step_def
  nodeMap_of_def workflow_of_def node_of_def edge_of_def store_of_def Let_def
  world_a_def time_a_def Format_RFC3339_def pad2_def pad4_def digit_def

lemma trace_shape_status:
  assumes "trace_shape response"
  shows "(RespStatus response = ''completed'' \<longleftrightarrow>
            (\<forall>step \<in> set (Steps response). Status step = ''completed'')) \<and>
         (\<forall>i < length (Steps response).
            Status (Steps response ! i) = ''failed'' \<longrightarrow> Suc i = length (Steps response))"
proof -
  from assms obtain before step where
    st: "Steps response = before @ [step]"
    and before: "\<forall>st \<in> set before. Status st = ''completed''"
    and last: "(Status step = ''completed'' \<and> RespStatus response = ''completed'') \<or>
               (Status step = ''failed'' \<and> RespStatus response = ''failed'')"
    unfolding trace_shape_def by blast
  have "Suc i = length (Steps response)"
    if "i < length (Steps response)" "Status (Steps response ! i) = ''failed''" for i
  proof (cases "i < length before")
    case True
    with before have "Status (before ! i) = ''completed''" by simp
    with that True st show ?thesis by (simp add: nth_append)
  next
    case False
    with that st show ?thesis by simp
  qed
  moreover have "RespStatus response = ''completed'' \<longleftrightarrow>
                 (\<forall>step \<in> set (Steps response). Status step = ''completed'')"
    using st before last by auto
  ultimately show ?thesis by blast
qed

lemma Execute_trace_shape:
  assumes "Execute w s workflow inputs = Some (s', response)"
  shows "trace_shape response"
proof (cases "findNodeByType (Nodes (Definition workflow)) ''start''")
  case None
  with assms have "Steps response = [] @ [\<lparr>NodeID = ''system'', StepType = ''system'',
                               StepLabel = ''System Error'', StepDescription = [],
                               Status = ''failed'', Output = None,
                               Error = ''No start node found in workflow''\<rparr>]"
    and "RespStatus response = ''failed''"
    by (auto simp: Execute_def)
  then show ?thesis
    unfolding trace_shape_def by (intro exI conjI) auto
next
  case (Some current)
  with assms have "Execute_loop w (Edges (Definition workflow))
      (nodeMap_of (Nodes (Definition workflow))) inputs s current [] ''completed'' 0 =
      Some (s', response)"
    by (simp add: Execute_def)
  from Execute_loop_trace_shape [OF this] show ?thesis by simp
qed

lemma Execute_loop_failed_step:
  assumes "Execute_switch w k current (maps s r) (new_step current) status =
             ((vars', step, status'), k')"
      and "Status step = ''failed''"
  shows "Execute_loop w edges nodeMap r s current steps status k =
           Some (s\<lparr>maps := (maps s)(r := vars')\<rparr>,
                 \<lparr>ExecutedAt = Format_RFC3339 (clock w k'), RespStatus = ''failed'',
                  Steps = steps @ [step]\<rparr>)"
proof -
  from Execute_switch_status [OF assms(1) new_step_Status] assms(2)
  have "status' = ''failed''" by auto
  with assms show ?thesis
    by (subst Execute_loop.simps) (simp add: Execute_iteration_def)
qed

lemma start_end_run:
  "\<exists>s'. Execute world_a (store_of Map.empty) start_end_workflow 0 =
     Some (s', \<lparr>ExecutedAt = ''2025-07-14T09:30:05Z'', RespStatus = ''completed'',
                Steps = [new_step (node_of ''start'' ''start''),
                         new_step (node_of ''end'' ''end'')]\<rparr>)"
  apply (simp add: run_defs start_end_workflow_def)
  apply (subst Execute_loop.simps, simp add: run_defs)
  apply (subst Execute_loop.simps, simp add: run_defs)
  done

lemma form_run:
  "\<exists>s'. Execute world_a (store_of [''name'' \<mapsto> VString ''John Doe'']) form_workflow 0 =
     Some (s', \<lparr>ExecutedAt = ''2025-07-14T09:30:05Z'', RespStatus = ''failed'',
                Steps = [new_step (node_of ''start'' ''start''),
                  (new_step form_node)\<lparr>Status := ''failed'',
                     Error := ''missing required input field: email''\<rparr>]\<rparr>)"
  apply (simp add: run_defs form_workflow_def form_node_def)
  apply (subst Execute_loop.simps, simp add: run_defs)
  apply (subst Execute_loop.simps, simp add: run_defs processFormNode_def)
  done

text \<open>On the graph with the edge from the start node to itself, the loop never ends.\<close>

lemma cycle_iteration:
  "Execute_iteration w (Edges (Definition cycle_workflow))
     (nodeMap_of (Nodes (Definition cycle_workflow))) r s (node_of ''start'' ''start'')
     steps status k =
   Inr (s\<lparr>maps := (maps s)(r := maps s r)\<rparr>, node_of ''start'' ''start'',
        steps @ [new_step (node_of ''start'' ''start'')], status, k)"
  by (simp add: Execute_iteration_def Execute_switch_def cycle_workflow_def workflow_of_def
        node_of_def edge_of_def nodeMap_of_def new_step_def Let_def)

lemma Execute_loop_cycle:
  assumes run: "Execute_loop w edges nodeMap r s current steps status k = Some y"
  shows "\<not> (edges = Edges (Definition cycle_workflow) \<and>
            nodeMap = nodeMap_of (Nodes (Definition cycle_workflow)) \<and>
            current = node_of ''start'' ''start'')"
proof (rule Execute_loop.raw_induct
         [where P = "\<lambda>w edges nodeMap r s current steps status k y.
            \<not> (edges = Edges (Definition cycle_workflow) \<and>
               nodeMap = nodeMap_of (Nodes (Definition cycle_workflow)) \<and>
               current = node_of ''start'' ''start'')",
          OF _ run])
  fix loop w edges nodeMap r s current steps status k y
  assume IH: "\<And>w edges nodeMap r s current steps status k y.
                loop w edges nodeMap r s current steps status k = Some y \<Longrightarrow>
                \<not> (edges = Edges (Definition cycle_workflow) \<and>
                   nodeMap = nodeMap_of (Nodes (Definition cycle_workflow)) \<and>
                   current = node_of ''start'' ''start'')"
     and body: "(case Execute_iteration w edges nodeMap r s current steps status k of
                   Inl result \<Rightarrow> Some result
                 | Inr (s', nextNode, steps', status', k') \<Rightarrow>
                     loop w edges nodeMap r s' nextNode steps' status' k') = Some y"
  show "\<not> (edges = Edges (Definition cycle_workflow) \<and>
           nodeMap = nodeMap_of (Nodes (Definition cycle_workflow)) \<and>
           current = node_of ''start'' ''start'')"
  proof
    assume c: "edges = Edges (Definition cycle_workflow) \<and>
               nodeMap = nodeMap_of (Nodes (Definition cycle_workflow)) \<and>
               current = node_of ''start'' ''start''"
    with body have "loop w edges nodeMap r (s\<lparr>maps := (maps s)(r := maps s r)\<rparr>)
                      current (steps @ [new_step (node_of ''start'' ''start'')]) status k =
                    Some y"
      by (simp add: cycle_iteration)
    from IH [OF this] c show False by simp
  qed
qed

lemma Execute_cycle_never_returns:
  "Execute w s cycle_workflow inputs = None"
proof (cases "Execute w s cycle_workflow inputs")
  case None
  then show ?thesis .
next
  case (Some y)
  have "findNodeByType (Nodes (Definition cycle_workflow)) ''start'' =
        Some (node_of ''start'' ''start'')"
    by (simp add: cycle_workflow_def workflow_of_def node_of_def)
  with Some have "Execute_loop w (Edges (Definition cycle_workflow))
      (nodeMap_of (Nodes (Definition cycle_workflow))) inputs s (node_of ''start'' ''start'')
      [] ''completed'' 0 = Some y"
    by (simp add: Execute_def)
  from Execute_loop_cycle [OF this] show ?thesis by simp
qed

text \<open>
  C1. Whenever \<open>Execute\<close> returns, the overall status is \<open>completed\<close> exactly when
  every step of the returned trace is completed, and a failed step can only be the
  last step of the trace. At any pass through the loop in which the step fails, the
  loop returns in that pass, with status \<open>failed\<close> and the trace so far followed by
  the failed step. \<open>Execute\<close> does return when the edges descend along some ranking
  of the node ids, that is, when the graph has no cycle (on a cycle the loop may never
  end: lemma \<open>Execute_cycle_never_returns\<close>).
\<close>

theorem Execute_status_and_trace:
  "(\<forall>s' response. Execute w s workflow inputs = Some (s', response) \<longrightarrow>
      (RespStatus response = ''completed'' \<longleftrightarrow>
         (\<forall>step \<in> set (Steps response). Status step = ''completed'')) \<and>
      (\<forall>i < length (Steps response).
         Status (Steps response ! i) = ''failed'' \<longrightarrow> Suc i = length (Steps response))) \<and>
   (\<forall>vars' step status' k'.
      Execute_switch w k current (maps s r) (new_step current) status =
        ((vars', step, status'), k') \<longrightarrow>
      Status step = ''failed'' \<longrightarrow>
      Execute_loop w edges nodeMap r s current steps status k =
        Some (s\<lparr>maps := (maps s)(r := vars')\<rparr>,
              \<lparr>ExecutedAt = Format_RFC3339 (clock w k'), RespStatus = ''failed'',
               Steps = steps @ [step]\<rparr>)) \<and>
   ((\<exists>rank :: string \<Rightarrow> nat.
       \<forall>edge \<in> set (Edges (Definition workflow)). rank (Target edge) < rank (Source edge)) \<longrightarrow>
    (\<exists>s' response. Execute w s workflow inputs = Some (s', response)))"
proof (intro conjI allI impI)
  fix s' response
  assume "Execute w s workflow inputs = Some (s', response)"
  then have ts: "trace_shape response" by (rule Execute_trace_shape)
  from trace_shape_status [OF ts]
  show "RespStatus response = ''completed'' \<longleftrightarrow>
          (\<forall>step \<in> set (Steps response). Status step = ''completed'')"
    by blast
  fix i
  assume "i < length (Steps response)" "Status (Steps response ! i) = ''failed''"
  with trace_shape_status [OF ts] show "Suc i = length (Steps response)" by blast
next
  fix vars' step status' k'
  assume "Execute_switch w k current (maps s r) (new_step current) status =
            ((vars', step, status'), k')" "Status step = ''failed''"
  then show "Execute_loop w edges nodeMap r s current steps status k =
        Some (s\<lparr>maps := (maps s)(r := vars')\<rparr>,
              \<lparr>ExecutedAt = Format_RFC3339 (clock w k'), RespStatus = ''failed'',
               Steps = steps @ [step]\<rparr>)"
    by (rule Execute_loop_failed_step)
next
  assume "\<exists>rank :: string \<Rightarrow> nat.
       \<forall>edge \<in> set (Edges (Definition workflow)). rank (Target edge) < rank (Source edge)"
  then obtain rank :: "string \<Rightarrow> nat" where
    rank: "\<forall>edge \<in> set (Edges (Definition workflow)). rank (Target edge) < rank (Source edge)"
    by blast
  show "\<exists>s' response. Execute w s workflow inputs = Some (s', response)"
  proof (cases "findNodeByType (Nodes (Definition workflow)) ''start''")
    case None
    then show ?thesis by (simp add: Execute_def)
  next
    case (Some current)
    from Execute_loop_returns [OF rank, of "nodeMap_of (Nodes (Definition workflow))"]
    have "\<exists>y. Execute_loop w (Edges (Definition workflow))
        (nodeMap_of (Nodes (Definition workflow))) inputs s current [] ''completed'' 0 = Some y"
      by (simp add: nodeMap_of_ID)
    with Some show ?thesis by (auto simp: Execute_def)
  qed
qed

theorem Execute_status_and_trace_witness:
  "(\<exists>rank :: string \<Rightarrow> nat.
      \<forall>edge \<in> set (Edges (Definition start_end_workflow)). rank (Target edge) < rank (Source edge)) \<and>
   (\<exists>s' response.
      Execute world_a (store_of Map.empty) start_end_workflow 0 = Some (s', response) \<and>
      RespStatus response = ''completed'' \<and> length (Steps response) = 2 \<and>
      (\<forall>step \<in> set (Steps response). Status step = ''completed'')) \<and>
   (\<exists>s' response.
      Execute world_a (store_of [''name'' \<mapsto> VString ''John Doe'']) form_workflow 0 =
        Some (s', response) \<and>
      RespStatus response = ''failed'' \<and> length (Steps response) = 2 \<and>
      Status (Steps response ! 1) = ''failed'' \<and>
      \<not> (\<forall>step \<in> set (Steps response). Status step = ''completed''))"
proof (intro conjI)
  show "\<exists>rank :: string \<Rightarrow> nat.
      \<forall>edge \<in> set (Edges (Definition start_end_workflow)). rank (Target edge) < rank (Source edge)"
    by (rule exI [of _ "\<lambda>i. if i = ''start'' then 1 else 0"])
       (simp add: start_end_workflow_def workflow_of_def edge_of_def)
next
  from start_end_run obtain s' where
    run: "Execute world_a (store_of Map.empty) start_end_workflow 0 =
            Some (s', \<lparr>ExecutedAt = ''2025-07-14T09:30:05Z'', RespStatus = ''completed'',
                Steps = [new_step (node_of ''start'' ''start''),
                         new_step (node_of ''end'' ''end'')]\<rparr>)"
    ..
  from Execute_status_and_trace
         [of world_a "store_of Map.empty" start_end_workflow 0, THEN conjunct1, rule_format, OF run, THEN conjunct1]
  have all: "\<forall>step \<in> set [new_step (node_of ''start'' ''start''),
                         new_step (node_of ''end'' ''end'')]. Status step = ''completed''"
    by simp
  show "\<exists>s' response.
      Execute world_a (store_of Map.empty) start_end_workflow 0 = Some (s', response) \<and>
      RespStatus response = ''completed'' \<and> length (Steps response) = 2 \<and>
      (\<forall>step \<in> set (Steps response). Status step = ''completed'')"
    apply (rule exI [of _ s'])
    apply (rule exI)
    apply (rule conjI [OF run])
    using all apply simp
    done
next
  from form_run obtain s' where
    run: "Execute world_a (store_of [''name'' \<mapsto> VString ''John Doe'']) form_workflow 0 =
     Some (s', \<lparr>ExecutedAt = ''2025-07-14T09:30:05Z'', RespStatus = ''failed'',
                Steps = [new_step (node_of ''start'' ''start''),
                  (new_step form_node)\<lparr>Status := ''failed'',
                     Error := ''missing required input field: email''\<rparr>]\<rparr>)"
    ..
  from Execute_status_and_trace
         [of world_a "store_of [''name'' \<mapsto> VString ''John Doe'']" form_workflow 0,
          THEN conjunct1, rule_format, OF run, THEN conjunct1]
  have notall: "\<not> (\<forall>step \<in> set [new_step (node_of ''start'' ''start''),
                  (new_step form_node)\<lparr>Status := ''failed'',
                     Error := ''missing required input field: email''\<rparr>].
                   Status step = ''completed'')"
    by simp
  show "\<exists>s' response.
      Execute world_a (store_of [''name'' \<mapsto> VString ''John Doe'']) form_workflow 0 =
        Some (s', response) \<and>
      RespStatus response = ''failed'' \<and> length (Steps response) = 2 \<and>
      Status (Steps response ! 1) = ''failed'' \<and>
      \<not> (\<forall>step \<in> set (Steps response). Status step = ''completed'')"
    apply (rule exI [of _ s'])
    apply (rule exI)
    apply (rule conjI [OF run])
    using notall apply simp
    done
qed

lemma Execute_visits_loop:
  assumes "Execute_visits w edges nodeMap r a b"
  shows "(case a of (s, current, steps, status, k) \<Rightarrow>
            Execute_loop w edges nodeMap r s current steps status k) =
         (case b of (s, current, steps, status, k) \<Rightarrow>
            Execute_loop w edges nodeMap r s current steps status k)"
  using assms
proof (induction rule: Execute_visits.induct)
  case (entry a)
  show ?case by simp
next
  case (pass a s current steps status k b)
  have "Execute_loop w edges nodeMap r s current steps status k =
        (case b of (s, current, steps, status, k) \<Rightarrow>
            Execute_loop w edges nodeMap r s current steps status k)"
    using pass.hyps(2) by (subst Execute_loop.simps) (simp split: prod.splits)
  with pass.IH show ?case by simp
qed

lemma Execute_visits_status:
  assumes "Execute_visits w edges nodeMap r a b"
      and "fst (snd (snd (snd a))) = ''completed''"
  shows "fst (snd (snd (snd b))) = ''completed''"
  using assms
proof (induction rule: Execute_visits.induct)
  case (entry a)
  then show ?case by simp
next
  case (pass a s current steps status k b)
  from pass.IH pass.prems have st: "status = ''completed''" by simp
  obtain s' nextNode steps' status' k' where b: "b = (s', nextNode, steps', status', k')"
    by (cases b)
  from Execute_iteration_Inr [OF pass.hyps(2) [unfolded b]]
  obtain vars' step where
    sw: "Execute_switch w k current (maps s r) (new_step current) status =
           ((vars', step, status'), k')"
    and ok: "Status step \<noteq> ''failed''"
    by blast
  from Execute_switch_status [OF sw new_step_Status] ok st b show ?case by auto
qed

text \<open>
  C9. Let the loop of \<open>Execute\<close> have reached a node whose step does not fail, and
  let edge resolution there yield a next node id that no node of the graph has. Then
  \<open>Execute\<close> returns at that point: the overall status is \<open>completed\<close> and the trace
  is the trace built so far followed by the step of that node.
\<close>

theorem Execute_broken_edge:
  assumes start: "findNodeByType (Nodes (Definition workflow)) ''start'' = Some start"
      and visits: "Execute_visits w (Edges (Definition workflow))
                     (nodeMap_of (Nodes (Definition workflow))) inputs
                     (s, start, [], ''completed'', 0) (s1, current, steps, status, k)"
      and switch: "Execute_switch w k current (maps s1 inputs) (new_step current) status =
                     ((vars', step, status'), k')"
      and ok: "Status step \<noteq> ''failed''"
      and nextID: "findNextNodeID (Edges (Definition workflow)) (ID current) vars' = nextID"
                  "nextID \<noteq> []"
      and broken: "nextID \<notin> ID ` set (Nodes (Definition workflow))"
  shows "Execute w s workflow inputs =
           Some (s1\<lparr>maps := (maps s1)(inputs := vars')\<rparr>,
                 \<lparr>ExecutedAt = Format_RFC3339 (clock w k'), RespStatus = ''completed'',
                  Steps = steps @ [step]\<rparr>)"
proof -
  let ?edges = "Edges (Definition workflow)" and ?map = "nodeMap_of (Nodes (Definition workflow))"
  from Execute_visits_status [OF visits] have "status = ''completed''" by simp
  with Execute_switch_status [OF switch new_step_Status] ok
  have status': "status' = ''completed''" by auto
  from broken have none: "?map nextID = None" by (simp add: nodeMap_of_None)
  have "Execute w s workflow inputs =
        Execute_loop w ?edges ?map inputs s start [] ''completed'' 0"
    using start by (simp add: Execute_def)
  also have "\<dots> = Execute_loop w ?edges ?map inputs s1 current steps status k"
    using Execute_visits_loop [OF visits] by simp
  also have "\<dots> = Some (s1\<lparr>maps := (maps s1)(inputs := vars')\<rparr>,
                 \<lparr>ExecutedAt = Format_RFC3339 (clock w k'), RespStatus = ''completed'',
                  Steps = steps @ [step]\<rparr>)"
    using switch ok nextID none status'
    by (subst Execute_loop.simps) (simp add: Execute_iteration_def)
  finally show ?thesis .
qed

theorem Execute_broken_edge_witness:
  "findNextNodeID (Edges (Definition broken_workflow)) ''end'' Map.empty = ''ghost'' \<and>
   ''ghost'' \<notin> ID ` set (Nodes (Definition broken_workflow)) \<and>
   Execute world_a (store_of Map.empty) broken_workflow 0 =
     Some (store_of Map.empty,
           \<lparr>ExecutedAt = ''2025-07-14T09:30:05Z'', RespStatus = ''completed'',
            Steps = [new_step (node_of ''start'' ''start''),
                     new_step (node_of ''end'' ''end'')]\<rparr>)"
proof -
  let ?s = "store_of Map.empty"
  let ?edges = "Edges (Definition broken_workflow)"
  let ?map = "nodeMap_of (Nodes (Definition broken_workflow))"
  have start: "findNodeByType (Nodes (Definition broken_workflow)) ''start'' =
               Some (node_of ''start'' ''start'')"
    by (simp add: broken_workflow_def workflow_of_def node_of_def)
  have pass: "Execute_iteration world_a ?edges ?map 0 ?s (node_of ''start'' ''start'') []
                ''completed'' 0 =
              Inr (?s, node_of ''end'' ''end'', [new_step (node_of ''start'' ''start'')],
                   ''completed'', 0)"
    by (simp add: run_defs broken_workflow_def fun_upd_idem)
  have visits: "Execute_visits world_a ?edges ?map 0
                  (?s, node_of ''start'' ''start'', [], ''completed'', 0)
                  (?s, node_of ''end'' ''end'', [new_step (node_of ''start'' ''start'')],
                   ''completed'', 0)"
    by (rule Execute_visits.pass [OF Execute_visits.entry pass])
  have switch: "Execute_switch world_a 0 (node_of ''end'' ''end'') (maps ?s 0)
                  (new_step (node_of ''end'' ''end'')) ''completed'' =
                ((Map.empty, new_step (node_of ''end'' ''end''), ''completed''), 0)"
    by (simp add: Execute_switch_def node_of_def store_of_def)
  have ok: "Status (new_step (node_of ''end'' ''end'')) \<noteq> ''failed''"
    by (simp add: new_step_def)
  have nextID: "findNextNodeID ?edges (ID (node_of ''end'' ''end'')) Map.empty = ''ghost''"
    by (simp add: broken_workflow_def workflow_of_def node_of_def edge_of_def)
  have ghost: "''ghost'' \<noteq> []"
    by simp
  have broken: "''ghost'' \<notin> ID ` set (Nodes (Definition broken_workflow))"
    by (simp add: broken_workflow_def workflow_of_def node_of_def)
  have same: "?s\<lparr>maps := (maps ?s)(0 := Map.empty)\<rparr> = ?s"
    by (simp add: store_of_def fun_upd_idem)
  from Execute_broken_edge [OF start visits switch ok nextID ghost broken]
  have "Execute world_a ?s broken_workflow 0 =
          Some (?s, \<lparr>ExecutedAt = Format_RFC3339 (clock world_a 0),
                     RespStatus = ''completed'',
                     Steps = [new_step (node_of ''start'' ''start'')] @
                             [new_step (node_of ''end'' ''end'')]\<rparr>)"
    by (simp only: same)
  moreover have "Format_RFC3339 (clock world_a 0) = ''2025-07-14T09:30:05Z''"
    by (simp add: run_defs)
  moreover have "findNextNodeID ?edges ''end'' Map.empty = ''ghost''"
    using nextID by (simp add: node_of_def)
  ultimately show ?thesis
    using broken by simp
qed

section \<open>The caller's map\<close>

lemma Execute_iteration_store:
  assumes "Execute_iteration w edges nodeMap r s current steps status k = result"
  shows "\<exists>vars'. (case result of Inl (s', response) \<Rightarrow> s' | Inr (s', rest) \<Rightarrow> s') =
           s\<lparr>maps := (maps s)(r := vars')\<rparr>"
  using assms
  by (auto simp: Execute_iteration_def Let_def split: prod.splits if_splits option.splits)

lemma Execute_loop_frame:
  assumes run: "Execute_loop w edges nodeMap r s current steps status k = Some y"
  shows "fresh (fst y) = fresh s \<and> (\<forall>r'. r' \<noteq> r \<longrightarrow> maps (fst y) r' = maps s r')"
proof (rule Execute_loop.raw_induct
         [where P = "\<lambda>w edges nodeMap r s current steps status k y.
            fresh (fst y) = fresh s \<and> (\<forall>r'. r' \<noteq> r \<longrightarrow> maps (fst y) r' = maps s r')",
          OF _ run])
  fix loop w edges nodeMap r s current steps status k y
  assume IH: "\<And>w edges nodeMap r s current steps status k y.
                loop w edges nodeMap r s current steps status k = Some y \<Longrightarrow>
                fresh (fst y) = fresh s \<and> (\<forall>r'. r' \<noteq> r \<longrightarrow> maps (fst y) r' = maps s r')"
     and body: "(case Execute_iteration w edges nodeMap r s current steps status k of
                   Inl result \<Rightarrow> Some result
                 | Inr (s', nextNode, steps', status', k') \<Rightarrow>
                     loop w edges nodeMap r s' nextNode steps' status' k') = Some y"
  show "fresh (fst y) = fresh s \<and> (\<forall>r'. r' \<noteq> r \<longrightarrow> maps (fst y) r' = maps s r')"
  proof (cases "Execute_iteration w edges nodeMap r s current steps status k")
    case (Inl result)
    with body have y: "y = result" by simp
    from Execute_iteration_store [OF Inl] y show ?thesis
      by (auto split: prod.splits)
  next
    case (Inr cont)
    obtain s' nextNode steps' status' k' where
      nxt: "cont = (s', nextNode, steps', status', k')" by (cases cont)
    from body Inr nxt have rec: "loop w edges nodeMap r s' nextNode steps' status' k' = Some y"
      by simp
    from Execute_iteration_store [OF Inr] nxt
    obtain vars' where "s' = s\<lparr>maps := (maps s)(r := vars')\<rparr>" by auto
    with IH [OF rec] show ?thesis by simp
  qed
qed

lemma Execute_vars_frame:
  assumes "Execute_vars w s workflow inputs = Some (s', response)"
      and "r < fresh s"
  shows "maps s' r = maps s r"
proof (cases "findNodeByType (Nodes (Definition workflow)) ''start''")
  case None
  with assms show ?thesis
    by (auto simp: Execute_vars_def make_map_def Let_def)
next
  case (Some current)
  define s1 where
    "s1 = (case make_map s of
             (vars, s0) \<Rightarrow> s0\<lparr>maps := (maps s0)(vars := maps s0 vars ++ maps s0 inputs)\<rparr>)"
  from assms(1) Some have
    run: "Execute_loop w (Edges (Definition workflow))
         (nodeMap_of (Nodes (Definition workflow)))
         (fresh s) s1 current [] ''completed'' 0 = Some (s', response)"
    by (simp add: Execute_vars_def s1_def make_map_def Let_def)
  from assms(2) have s1: "maps s1 r = maps s r" "fresh s1 = Suc (fresh s)"
    by (simp_all add: s1_def make_map_def)
  from Execute_loop_frame [OF run] assms(2) s1 show ?thesis by simp
qed

lemma Execute_iteration_ref:
  assumes "maps s2 r2 = maps s r"
  shows "case Execute_iteration w edges nodeMap r s current steps status k of
           Inl (s', response) \<Rightarrow>
             \<exists>s2'. Execute_iteration w edges nodeMap r2 s2 current steps status k =
                      Inl (s2', response) \<and> maps s2' r2 = maps s' r
         | Inr (s', rest) \<Rightarrow>
             \<exists>s2'. Execute_iteration w edges nodeMap r2 s2 current steps status k =
                      Inr (s2', rest) \<and> maps s2' r2 = maps s' r"
  using assms
  by (auto simp: Execute_iteration_def Let_def split: prod.splits option.splits)

lemma Execute_loop_ref:
  assumes run: "Execute_loop w edges nodeMap r s current steps status k = Some y"
  shows "\<forall>r2 s2. maps s2 r2 = maps s r \<longrightarrow>
           (\<exists>s2'. Execute_loop w edges nodeMap r2 s2 current steps status k =
                     Some (s2', snd y) \<and> maps s2' r2 = maps (fst y) r)"
proof (rule Execute_loop.raw_induct
         [where P = "\<lambda>w edges nodeMap r s current steps status k y.
            \<forall>r2 s2. maps s2 r2 = maps s r \<longrightarrow>
              (\<exists>s2'. Execute_loop w edges nodeMap r2 s2 current steps status k =
                        Some (s2', snd y) \<and> maps s2' r2 = maps (fst y) r)",
          OF _ run])
  fix loop w edges nodeMap r s current steps status k y
  assume IH: "\<And>w edges nodeMap r s current steps status k y.
                loop w edges nodeMap r s current steps status k = Some y \<Longrightarrow>
                \<forall>r2 s2. maps s2 r2 = maps s r \<longrightarrow>
                  (\<exists>s2'. Execute_loop w edges nodeMap r2 s2 current steps status k =
                            Some (s2', snd y) \<and> maps s2' r2 = maps (fst y) r)"
     and body: "(case Execute_iteration w edges nodeMap r s current steps status k of
                   Inl result \<Rightarrow> Some result
                 | Inr (s', nextNode, steps', status', k') \<Rightarrow>
                     loop w edges nodeMap r s' nextNode steps' status' k') = Some y"
  show "\<forall>r2 s2. maps s2 r2 = maps s r \<longrightarrow>
          (\<exists>s2'. Execute_loop w edges nodeMap r2 s2 current steps status k =
                    Some (s2', snd y) \<and> maps s2' r2 = maps (fst y) r)"
  proof (intro allI impI)
    fix r2 :: nat and s2 :: store
    assume same: "maps s2 r2 = maps s r"
    note it = Execute_iteration_ref [OF same, of w edges nodeMap current steps status k]
    show "\<exists>s2'. Execute_loop w edges nodeMap r2 s2 current steps status k =
                    Some (s2', snd y) \<and> maps s2' r2 = maps (fst y) r"
    proof (cases "Execute_iteration w edges nodeMap r s current steps status k")
      case (Inl result)
      with body have y: "y = result" by simp
      from it Inl obtain s2' where
        it2: "Execute_iteration w edges nodeMap r2 s2 current steps status k =
                Inl (s2', snd result)"
        and m: "maps s2' r2 = maps (fst result) r"
        by (auto split: prod.splits)
      have "Execute_loop w edges nodeMap r2 s2 current steps status k = Some (s2', snd result)"
        by (subst Execute_loop.simps) (simp add: it2)
      with m y show ?thesis by simp
    next
      case (Inr cont)
      obtain s' nextNode steps' status' k' where
        c: "cont = (s', nextNode, steps', status', k')" by (cases cont)
      from body Inr c have rec: "loop w edges nodeMap r s' nextNode steps' status' k' = Some y"
        by simp
      from it Inr c obtain s2' where
        it2: "Execute_iteration w edges nodeMap r2 s2 current steps status k =
                Inr (s2', nextNode, steps', status', k')"
        and m: "maps s2' r2 = maps s' r"
        by (auto split: prod.splits)
      from IH [OF rec, rule_format, OF m]
      obtain s2'' where
        "Execute_loop w edges nodeMap r2 s2' nextNode steps' status' k' = Some (s2'', snd y)"
        "maps s2'' r2 = maps (fst y) r"
        by auto
      moreover have "Execute_loop w edges nodeMap r2 s2 current steps status k =
                     Execute_loop w edges nodeMap r2 s2' nextNode steps' status' k'"
        by (subst Execute_loop.simps) (simp add: it2)
      ultimately show ?thesis by auto
    qed
  qed
qed

lemma Execute_vars_response:
  assumes "inputs < fresh s"
  shows "map_option snd (Execute_vars w s workflow inputs) =
         map_option snd (Execute w s workflow inputs)"
proof (cases "findNodeByType (Nodes (Definition workflow)) ''start''")
  case None
  then show ?thesis
    by (simp add: Execute_def Execute_vars_def make_map_def Let_def)
next
  case (Some current)
  define s1 where
    "s1 = (case make_map s of
             (vars, s0) \<Rightarrow> s0\<lparr>maps := (maps s0)(vars := maps s0 vars ++ maps s0 inputs)\<rparr>)"
  let ?loop = "Execute_loop w (Edges (Definition workflow))
                 (nodeMap_of (Nodes (Definition workflow)))"
  have v: "Execute_vars w s workflow inputs = ?loop (fresh s) s1 current [] ''completed'' 0"
    using Some by (simp add: Execute_vars_def s1_def make_map_def Let_def)
  have e: "Execute w s workflow inputs = ?loop inputs s current [] ''completed'' 0"
    using Some by (simp add: Execute_def)
  from assms have same: "maps s1 (fresh s) = maps s inputs"
    by (simp add: s1_def make_map_def)
  show ?thesis
  proof (cases "?loop inputs s current [] ''completed'' 0")
    case None
    have "?loop (fresh s) s1 current [] ''completed'' 0 = None"
    proof (cases "?loop (fresh s) s1 current [] ''completed'' 0")
      case None
      then show ?thesis .
    next
      case (Some y)
      from Execute_loop_ref [OF Some, rule_format, OF same [symmetric]] None
      show ?thesis by simp
    qed
    with None v e show ?thesis by simp
  next
    case (Some y)
    from Execute_loop_ref [OF Some, rule_format, OF same]
    obtain s2' where "?loop (fresh s) s1 current [] ''completed'' 0 = Some (s2', snd y)"
      by auto
    with Some v e show ?thesis by simp
  qed
qed

text \<open>
  C3. \<open>Execute\<close> of the first text of executor.go hands the caller's map itself to
  the node behaviours: here a condition node writes \<open>conditionMet\<close> into the map at
  the caller's reference 0, which did not hold that key before the call. \<open>Execute\<close>
  of the second text, which copies the inputs into a map of its own, leaves the
  caller's map as it was (lemma \<open>Execute_vars_frame\<close> for every run of it).
\<close>

theorem Execute_writes_inputs:
  "maps (store_of condition_vars) 0 ''conditionMet'' = None \<and>
   map_option (\<lambda>result. maps (fst result) 0 ''conditionMet'')
     (Execute world_a (store_of condition_vars) condition_workflow 0) =
   Some (Some (VBool True)) \<and>
   map_option (\<lambda>result. maps (fst result) 0 ''conditionMet'')
     (Execute_vars world_a (store_of condition_vars) condition_workflow 0) =
   Some None"
  apply (intro conjI)
    apply (simp add: store_of_def condition_vars_def)
   apply (simp add: run_defs condition_workflow_def condition_vars_def)
   apply (subst Execute_loop.simps, simp add: run_defs)
   apply (subst Execute_loop.simps, simp add: run_defs processConditionNode_def)
  apply (simp add: Execute_vars_def make_map_def run_defs condition_workflow_def condition_vars_def)
  apply (subst Execute_loop.simps, simp add: run_defs)
  apply (subst Execute_loop.simps, simp add: run_defs processConditionNode_def)
  done


section \<open>Two runs on the same arguments\<close>

lemma untimed_Status: "Status (untimed step) = Status step"
  by (simp add: untimed_def)

lemma processEmailNode_untimed:
  assumes "StepType step = ''email''"
  shows "snd (processEmailNode w1 k vars step) = snd (processEmailNode w2 k vars step) \<and>
         map_sum id (map_prod id untimed) (fst (processEmailNode w1 k vars step)) =
         map_sum id (map_prod id untimed) (fst (processEmailNode w2 k vars step))"
  using assms
  by (auto simp: processEmailNode_def Let_def untimed_def untimed_value_def fun_eq_iff
      split: option.splits val.splits bool.splits)

lemma processIntegrationNode_same:
  assumes "fetchWeather w2 = fetchWeather w1"
  shows "processIntegrationNode w2 k node vars step = processIntegrationNode w1 k node vars step"
  unfolding processIntegrationNode_def assms by (rule refl)

lemma Execute_case_untimed:
  assumes "map_sum id (map_prod id untimed) result1 = map_sum id (map_prod id untimed) result2"
      and "Execute_case result1 vars step status = (vars1, step1, status1)"
      and "Execute_case result2 vars step status = (vars2, step2, status2)"
  shows "vars1 = vars2 \<and> status1 = status2 \<and> untimed step1 = untimed step2"
  using assms
  by (cases result1; cases result2) (auto simp: Execute_case_def)

lemma Execute_switch_untimed:
  assumes fw: "fetchWeather w2 = fetchWeather w1"
      and sw1: "Execute_switch w1 k current vars (new_step current) status =
                  ((vars1, step1, status1), k1)"
      and sw2: "Execute_switch w2 k current vars (new_step current) status =
                  ((vars2, step2, status2), k2)"
  shows "vars1 = vars2 \<and> status1 = status2 \<and> k1 = k2 \<and> untimed step1 = untimed step2"
proof (cases "Type current = ''email''")
  case True
  let ?step = "new_step current"
  have ty: "StepType ?step = ''email''" using True by (simp add: new_step_def)
  note e = processEmailNode_untimed [OF ty, of w1 k vars w2]
  from sw1 True have c1: "Execute_case (fst (processEmailNode w1 k vars ?step)) vars ?step status =
                            (vars1, step1, status1)"
    and k1: "k1 = snd (processEmailNode w1 k vars ?step)"
    by (auto simp: Execute_switch_def split: prod.splits)
  from sw2 True have c2: "Execute_case (fst (processEmailNode w2 k vars ?step)) vars ?step status =
                            (vars2, step2, status2)"
    and k2: "k2 = snd (processEmailNode w2 k vars ?step)"
    by (auto simp: Execute_switch_def split: prod.splits)
  from Execute_case_untimed [OF e [THEN conjunct2] c1 c2] e k1 k2 show ?thesis by simp
next
  case False
  have "Execute_switch w2 k current vars (new_step current) status =
        Execute_switch w1 k current vars (new_step current) status"
    unfolding Execute_switch_def processIntegrationNode_same [OF fw]
    using False by simp
  with sw1 sw2 show ?thesis by simp
qed


lemma Execute_iteration_untimed:
  assumes fw: "fetchWeather w2 = fetchWeather w1"
      and steps: "map untimed steps2 = map untimed steps1"
  shows "same_pass (Execute_iteration w1 edges nodeMap r s current steps1 status k)
                   (Execute_iteration w2 edges nodeMap r s current steps2 status k)"
proof -
  obtain vars1 step1 status1 k1 where
    sw1: "Execute_switch w1 k current (maps s r) (new_step current) status =
            ((vars1, step1, status1), k1)"
    by (metis prod.exhaust)
  obtain vars2 step2 status2 k2 where
    sw2: "Execute_switch w2 k current (maps s r) (new_step current) status =
            ((vars2, step2, status2), k2)"
    by (metis prod.exhaust)
  from Execute_switch_untimed [OF fw sw1 sw2]
  have eq: "vars2 = vars1" "status2 = status1" "k2 = k1" "untimed step2 = untimed step1"
    by simp_all
  from eq(4) have st: "Status step2 = Status step1"
    by (metis untimed_Status)
  show ?thesis
    using steps eq(4)
    by (simp add: Execute_iteration_def Let_def sw1 sw2 eq(1-3) st split: option.splits)
qed

lemma Execute_loop_untimed:
  assumes run: "Execute_loop w1 edges nodeMap r s current steps1 status k = Some y1"
  shows "\<forall>w2 steps2. fetchWeather w2 = fetchWeather w1 \<longrightarrow>
           map untimed steps2 = map untimed steps1 \<longrightarrow>
           (\<exists>response2.
              Execute_loop w2 edges nodeMap r s current steps2 status k =
                Some (fst y1, response2) \<and>
              RespStatus response2 = RespStatus (snd y1) \<and>
              map untimed (Steps response2) = map untimed (Steps (snd y1)))"
proof (rule Execute_loop.raw_induct
         [where P = "\<lambda>w1 edges nodeMap r s current steps1 status k y1.
            \<forall>w2 steps2. fetchWeather w2 = fetchWeather w1 \<longrightarrow>
              map untimed steps2 = map untimed steps1 \<longrightarrow>
              (\<exists>response2.
                 Execute_loop w2 edges nodeMap r s current steps2 status k =
                   Some (fst y1, response2) \<and>
                 RespStatus response2 = RespStatus (snd y1) \<and>
                 map untimed (Steps response2) = map untimed (Steps (snd y1)))",
          OF _ run])
  fix loop w1 edges nodeMap r s current steps1 status k y1
  assume IH: "\<And>w1 edges nodeMap r s current steps1 status k y1.
                loop w1 edges nodeMap r s current steps1 status k = Some y1 \<Longrightarrow>
                \<forall>w2 steps2. fetchWeather w2 = fetchWeather w1 \<longrightarrow>
                  map untimed steps2 = map untimed steps1 \<longrightarrow>
                  (\<exists>response2.
                     Execute_loop w2 edges nodeMap r s current steps2 status k =
                       Some (fst y1, response2) \<and>
                     RespStatus response2 = RespStatus (snd y1) \<and>
                     map untimed (Steps response2) = map untimed (Steps (snd y1)))"
     and body: "(case Execute_iteration w1 edges nodeMap r s current steps1 status k of
                   Inl result \<Rightarrow> Some result
                 | Inr (s', nextNode, steps', status', k') \<Rightarrow>
                     loop w1 edges nodeMap r s' nextNode steps' status' k') = Some y1"
  show "\<forall>w2 steps2. fetchWeather w2 = fetchWeather w1 \<longrightarrow>
          map untimed steps2 = map untimed steps1 \<longrightarrow>
          (\<exists>response2.
             Execute_loop w2 edges nodeMap r s current steps2 status k =
               Some (fst y1, response2) \<and>
             RespStatus response2 = RespStatus (snd y1) \<and>
             map untimed (Steps response2) = map untimed (Steps (snd y1)))"
  proof (intro allI impI)
    fix w2 :: world and steps2 :: "ExecutionStep list"
    assume fw: "fetchWeather w2 = fetchWeather w1"
       and steps: "map untimed steps2 = map untimed steps1"
    note same = Execute_iteration_untimed [OF fw steps, of edges nodeMap r s current status k]
    show "\<exists>response2.
             Execute_loop w2 edges nodeMap r s current steps2 status k =
               Some (fst y1, response2) \<and>
             RespStatus response2 = RespStatus (snd y1) \<and>
             map untimed (Steps response2) = map untimed (Steps (snd y1))"
    proof (cases "Execute_iteration w1 edges nodeMap r s current steps1 status k")
      case (Inl result1)
      with body have y1: "y1 = result1" by simp
      obtain s1 response1 where r1: "result1 = (s1, response1)" by (cases result1)
      from same Inl r1 obtain response2 where
        it2: "Execute_iteration w2 edges nodeMap r s current steps2 status k =
                Inl (s1, response2)"
        and rel: "RespStatus response1 = RespStatus response2"
                 "map untimed (Steps response1) = map untimed (Steps response2)"
        by (cases "Execute_iteration w2 edges nodeMap r s current steps2 status k") auto
      have "Execute_loop w2 edges nodeMap r s current steps2 status k = Some (s1, response2)"
        by (subst Execute_loop.simps) (simp add: it2)
      with rel y1 r1 show ?thesis by simp
    next
      case (Inr cont1)
      obtain s' nextNode steps1' status' k' where
        c1: "cont1 = (s', nextNode, steps1', status', k')" by (cases cont1)
      from body Inr c1 have rec: "loop w1 edges nodeMap r s' nextNode steps1' status' k' = Some y1"
        by simp
      from same Inr c1 obtain steps2' where
        it2: "Execute_iteration w2 edges nodeMap r s current steps2 status k =
                Inr (s', nextNode, steps2', status', k')"
        and rel: "map untimed steps1' = map untimed steps2'"
        by (cases "Execute_iteration w2 edges nodeMap r s current steps2 status k") auto
      from IH [OF rec, rule_format, OF fw rel [symmetric]]
      obtain response2 where
        "Execute_loop w2 edges nodeMap r s' nextNode steps2' status' k' =
           Some (fst y1, response2)"
        "RespStatus response2 = RespStatus (snd y1)"
        "map untimed (Steps response2) = map untimed (Steps (snd y1))"
        by auto
      moreover have "Execute_loop w2 edges nodeMap r s current steps2 status k =
                     Execute_loop w2 edges nodeMap r s' nextNode steps2' status' k'"
        by (subst Execute_loop.simps) (simp add: it2)
      ultimately show ?thesis by auto
    qed
  qed
qed

lemma untimed_fields:
  "NodeID (untimed step) = NodeID step" "StepType (untimed step) = StepType step"
  "StepLabel (untimed step) = StepLabel step"
  "StepDescription (untimed step) = StepDescription step"
  "Error (untimed step) = Error step"
  by (simp_all add: untimed_def)

lemma map_untimed_fields:
  assumes "map untimed steps2 = map untimed steps1"
  shows "map NodeID steps2 = map NodeID steps1 \<and> map StepType steps2 = map StepType steps1 \<and>
         map Status steps2 = map Status steps1 \<and> map Error steps2 = map Error steps1"
proof -
  have "map f steps2 = map f steps1" if "\<And>step. f (untimed step) = f step"
    for f :: "ExecutionStep \<Rightarrow> string"
  proof -
    have "map f (map untimed steps2) = map f (map untimed steps1)"
      using assms by simp
    then show ?thesis by (simp add: o_def that)
  qed
  then show ?thesis
    by (simp add: untimed_fields untimed_Status)
qed

lemma messageIds_Steps:
  "messageIds result =
   map_option (map (\<lambda>step. case Output step of
                               None \<Rightarrow> None
                             | Some output \<Rightarrow> output ''messageId''))
     (map_option (\<lambda>result. Steps (snd result)) result)"
  by (simp add: messageIds_def option.map_comp o_def)

lemma email_run_a:
  "messageIds (Execute world_a (store_of (email_vars True)) email_workflow 0) =
     Some [None, Some (VString ''msg_20250714093005'')]"
  apply (simp add: messageIds_def run_defs email_workflow_def email_vars_def)
  apply (subst Execute_loop.simps, simp add: run_defs)
  apply (subst Execute_loop.simps,
         simp add: run_defs processEmailNode_def Format_20060102150405_def)
  done

lemma email_run_b:
  "messageIds (Execute world_b (store_of (email_vars True)) email_workflow 0) =
     Some [None, Some (VString ''msg_20250714093006'')]"
  apply (simp add: messageIds_def run_defs email_workflow_def email_vars_def)
  apply (subst Execute_loop.simps, simp add: run_defs world_b_def time_b_def)
  apply (subst Execute_loop.simps,
         simp add: run_defs world_b_def time_b_def processEmailNode_def
           Format_20060102150405_def)
  done

lemma Execute_same_store:
  assumes "fetchWeather w2 = fetchWeather w1"
      and "Execute w1 s workflow inputs = Some (s1, response1)"
  shows "\<exists>response2.
           Execute w2 s workflow inputs = Some (s1, response2) \<and>
           RespStatus response2 = RespStatus response1 \<and>
           map untimed (Steps response2) = map untimed (Steps response1) \<and>
           map NodeID (Steps response2) = map NodeID (Steps response1) \<and>
           map StepType (Steps response2) = map StepType (Steps response1) \<and>
           map Status (Steps response2) = map Status (Steps response1) \<and>
           map Error (Steps response2) = map Error (Steps response1)"
proof (cases "findNodeByType (Nodes (Definition workflow)) ''start''")
  case None
  with assms(2) show ?thesis
    by (auto simp: Execute_def)
next
  case (Some current)
  with assms(2) have
    "Execute_loop w1 (Edges (Definition workflow)) (nodeMap_of (Nodes (Definition workflow)))
       inputs s current [] ''completed'' 0 = Some (s1, response1)"
    by (simp add: Execute_def)
  from Execute_loop_untimed [OF this, rule_format, OF assms(1), of "[]"]
  obtain response2 where
    run2: "Execute_loop w2 (Edges (Definition workflow))
       (nodeMap_of (Nodes (Definition workflow)))
       inputs s current [] ''completed'' 0 = Some (s1, response2)"
    and rel: "RespStatus response2 = RespStatus response1"
             "map untimed (Steps response2) = map untimed (Steps response1)"
    by auto
  from run2 Some have "Execute w2 s workflow inputs = Some (s1, response2)"
    by (simp add: Execute_def)
  with rel map_untimed_fields [OF rel(2)] show ?thesis by blast
qed

lemma Execute_same_contents:
  assumes run: "Execute w s workflow inputs = Some (s1, response)"
      and same: "maps s' inputs' = maps s inputs"
  shows "\<exists>s1'. Execute w s' workflow inputs' = Some (s1', response) \<and>
               maps s1' inputs' = maps s1 inputs"
proof (cases "findNodeByType (Nodes (Definition workflow)) ''start''")
  case None
  with run same show ?thesis
    by (auto simp: Execute_def)
next
  case (Some current)
  with run have
    "Execute_loop w (Edges (Definition workflow)) (nodeMap_of (Nodes (Definition workflow)))
       inputs s current [] ''completed'' 0 = Some (s1, response)"
    by (simp add: Execute_def)
  from Execute_loop_ref [OF this, rule_format, OF same]
  obtain s1' where
    "Execute_loop w (Edges (Definition workflow)) (nodeMap_of (Nodes (Definition workflow)))
       inputs' s' current [] ''completed'' 0 = Some (s1', response)"
    "maps s1' inputs' = maps s1 inputs"
    by auto
  with Some show ?thesis by (simp add: Execute_def)
qed

lemma Execute_vars_fresh:
  assumes "Execute_vars w s workflow inputs = Some (s', response)"
  shows "fresh s' = Suc (fresh s)"
proof (cases "findNodeByType (Nodes (Definition workflow)) ''start''")
  case None
  with assms show ?thesis
    by (auto simp: Execute_vars_def make_map_def Let_def)
next
  case (Some current)
  define s1 where
    "s1 = (case make_map s of
             (vars, s0) \<Rightarrow> s0\<lparr>maps := (maps s0)(vars := maps s0 vars ++ maps s0 inputs)\<rparr>)"
  from assms Some have
    run: "Execute_loop w (Edges (Definition workflow))
         (nodeMap_of (Nodes (Definition workflow)))
         (fresh s) s1 current [] ''completed'' 0 = Some (s', response)"
    by (simp add: Execute_vars_def s1_def make_map_def Let_def)
  have "fresh s1 = Suc (fresh s)"
    by (simp add: s1_def make_map_def)
  with Execute_loop_frame [OF run] show ?thesis by simp
qed

lemma Execute_vars_Some:
  assumes "inputs < fresh s"
  shows "(\<exists>s'. Execute_vars w s workflow inputs = Some (s', response)) \<longleftrightarrow>
         (\<exists>s'. Execute w s workflow inputs = Some (s', response))"
proof -
  from Execute_vars_response [OF assms, of w workflow]
  have eq: "map_option snd (Execute_vars w s workflow inputs) =
            map_option snd (Execute w s workflow inputs)" .
  show ?thesis
  proof
    assume "\<exists>s'. Execute_vars w s workflow inputs = Some (s', response)"
    then obtain s' where "Execute_vars w s workflow inputs = Some (s', response)" ..
    with eq have "map_option snd (Execute w s workflow inputs) = Some response" by simp
    then show "\<exists>s'. Execute w s workflow inputs = Some (s', response)" by auto
  next
    assume "\<exists>s'. Execute w s workflow inputs = Some (s', response)"
    then obtain s' where "Execute w s workflow inputs = Some (s', response)" ..
    with eq have "map_option snd (Execute_vars w s workflow inputs) = Some response" by simp
    then show "\<exists>s'. Execute_vars w s workflow inputs = Some (s', response)" by auto
  qed
qed

text \<open>
  On the caller's own map the first text of \<^verbatim>\<open>Execute\<close> is not repeatable: the
  second of two calls reads what the first wrote.
\<close>

lemma Execute_second_call_differs:
  "(case Execute world_a (store_of condition_vars) email_condition_workflow 0 of
      None \<Rightarrow> None
    | Some (s1, response1) \<Rightarrow>
        map_option
          (\<lambda>result. (RespStatus response1, length (Steps response1),
                     RespStatus (snd result), length (Steps (snd result))))
          (Execute world_a s1 email_condition_workflow 0)) =
   Some (''completed'', 3, ''failed'', 2)"
  apply (simp add: run_defs email_condition_workflow_def condition_vars_def)
  apply (subst Execute_loop.simps, simp add: run_defs)
  apply (subst Execute_loop.simps, simp add: run_defs processEmailNode_def)
  apply (subst Execute_loop.simps,
         simp add: run_defs processConditionNode_def email_condition_workflow_def)
  apply (subst Execute_loop.simps, simp add: run_defs)
  apply (subst Execute_loop.simps, simp add: run_defs processEmailNode_def)
  done

text \<open>
  C4, as stated, fails: with the same lookup collaborator, the same store, graph and
  inputs, two runs whose clocks differ by a second return different step sequences,
  because the output of an email step that sends holds a \<open>messageId\<close> made from the
  time of the run (and a \<open>timestamp\<close> in its draft).
\<close>

theorem Execute_steps_differ:
  "fetchWeather world_b = fetchWeather world_a \<and>
   map_option (\<lambda>result. Steps (snd result))
     (Execute world_a (store_of (email_vars True)) email_workflow 0) \<noteq>
   map_option (\<lambda>result. Steps (snd result))
     (Execute world_b (store_of (email_vars True)) email_workflow 0)"
proof
  show "fetchWeather world_b = fetchWeather world_a"
    by (simp add: world_a_def world_b_def)
  show "map_option (\<lambda>result. Steps (snd result))
     (Execute world_a (store_of (email_vars True)) email_workflow 0) \<noteq>
   map_option (\<lambda>result. Steps (snd result))
     (Execute world_b (store_of (email_vars True)) email_workflow 0)"
  proof
    assume "map_option (\<lambda>result. Steps (snd result))
       (Execute world_a (store_of (email_vars True)) email_workflow 0) =
     map_option (\<lambda>result. Steps (snd result))
       (Execute world_b (store_of (email_vars True)) email_workflow 0)"
    then have "messageIds (Execute world_a (store_of (email_vars True)) email_workflow 0) =
               messageIds (Execute world_b (store_of (email_vars True)) email_workflow 0)"
      by (simp only: messageIds_Steps)
    then show False
      by (simp add: email_run_a email_run_b)
  qed
qed

text \<open>
  C4, amended. Let two worlds have the same lookup collaborator. Two calls of
  \<open>Execute\<close> on the same graph whose input maps hold the same contents when each
  call starts agree: if the first returns, so does the second, the input maps hold
  the same contents afterwards, the overall statuses are equal, the traces have the
  same node ids, types, statuses and errors, and they are equal step by step once the
  \<open>messageId\<close> and the draft's \<open>timestamp\<close> are removed from the outputs of the
  email steps. For \<open>Execute\<close> of the second text, which works on a copy, two
  successive calls on the same map are such calls: the second call, started in the
  store the first one left, agrees with the first, and the caller's map is as before.
\<close>

theorem Execute_repeatable:
  assumes fw: "fetchWeather w2 = fetchWeather w1"
  shows "(\<forall>s inputs s' inputs' s1 response1.
            maps s' inputs' = maps s inputs \<longrightarrow>
            Execute w1 s workflow inputs = Some (s1, response1) \<longrightarrow>
            (\<exists>s2 response2.
               Execute w2 s' workflow inputs' = Some (s2, response2) \<and>
               maps s2 inputs' = maps s1 inputs \<and>
               agree_up_to_clock response2 response1)) \<and>
         (\<forall>s inputs s1 response1.
            inputs < fresh s \<longrightarrow>
            Execute_vars w1 s workflow inputs = Some (s1, response1) \<longrightarrow>
            (\<exists>s2 response2.
               Execute_vars w2 s1 workflow inputs = Some (s2, response2) \<and>
               maps s2 inputs = maps s inputs \<and>
               agree_up_to_clock response2 response1))"
proof (intro conjI allI impI)
  fix s s' s1 :: store and inputs inputs' :: nat and response1 :: ExecutionResponse
  assume same: "maps s' inputs' = maps s inputs"
     and run: "Execute w1 s workflow inputs = Some (s1, response1)"
  from Execute_same_contents [OF run same]
  obtain s1' where run': "Execute w1 s' workflow inputs' = Some (s1', response1)"
    and m: "maps s1' inputs' = maps s1 inputs"
    by auto
  from Execute_same_store [OF fw run']
  obtain response2 where
    "Execute w2 s' workflow inputs' = Some (s1', response2)"
    "agree_up_to_clock response2 response1"
    by (auto simp: agree_up_to_clock_def)
  with m show "\<exists>s2 response2.
               Execute w2 s' workflow inputs' = Some (s2, response2) \<and>
               maps s2 inputs' = maps s1 inputs \<and>
               agree_up_to_clock response2 response1"
    by auto
next
  fix s s1 :: store and inputs :: nat and response1 :: ExecutionResponse
  assume valid: "inputs < fresh s"
     and run: "Execute_vars w1 s workflow inputs = Some (s1, response1)"
  from Execute_vars_frame [OF run valid] have kept: "maps s1 inputs = maps s inputs" .
  from Execute_vars_fresh [OF run] valid have valid1: "inputs < fresh s1" by simp
  from run Execute_vars_Some [OF valid, of w1 workflow response1]
  obtain sa where "Execute w1 s workflow inputs = Some (sa, response1)" by auto
  from Execute_same_contents [OF this kept]
  obtain sb where run1: "Execute w1 s1 workflow inputs = Some (sb, response1)" by auto
  from Execute_same_store [OF fw run1]
  obtain response2 where
    run2: "Execute w2 s1 workflow inputs = Some (sb, response2)"
    and agree: "agree_up_to_clock response2 response1"
    by (auto simp: agree_up_to_clock_def)
  from run2 Execute_vars_Some [OF valid1, of w2 workflow response2]
  obtain s2 where run2': "Execute_vars w2 s1 workflow inputs = Some (s2, response2)" by auto
  from Execute_vars_frame [OF run2' valid1] kept
  have "maps s2 inputs = maps s inputs" by simp
  with run2' agree show "\<exists>s2 response2.
               Execute_vars w2 s1 workflow inputs = Some (s2, response2) \<and>
               maps s2 inputs = maps s inputs \<and>
               agree_up_to_clock response2 response1"
    by auto
qed

theorem Execute_repeatable_witness:
  "fetchWeather world_b = fetchWeather world_a \<and>
   (\<exists>s1 response1 s2 response2.
      Execute world_a (store_of (email_vars True)) email_workflow 0 = Some (s1, response1) \<and>
      Execute world_b (store_of (email_vars True)) email_workflow 0 = Some (s2, response2) \<and>
      agree_up_to_clock response2 response1) \<and>
   0 < fresh (store_of (email_vars True)) \<and>
   (\<exists>s1 response1 s2 response2.
      Execute_vars world_a (store_of (email_vars True)) email_workflow 0 =
        Some (s1, response1) \<and>
      Execute_vars world_b s1 email_workflow 0 = Some (s2, response2) \<and>
      maps s2 0 = maps (store_of (email_vars True)) 0 \<and>
      agree_up_to_clock response2 response1)"
proof -
  let ?s = "store_of (email_vars True)"
  have fw: "fetchWeather world_b = fetchWeather world_a"
    by (simp add: world_a_def world_b_def)
  have valid: "0 < fresh ?s"
    by (simp add: store_of_def)
  note both = Execute_repeatable [OF fw, of email_workflow]
  from email_run_a obtain s1 response1 where
    run: "Execute world_a ?s email_workflow 0 = Some (s1, response1)"
    by (cases "Execute world_a ?s email_workflow 0") (auto simp: messageIds_def)
  from both [THEN conjunct1, rule_format, OF refl run]
  have first: "\<exists>s1 response1 s2 response2.
      Execute world_a ?s email_workflow 0 = Some (s1, response1) \<and>
      Execute world_b ?s email_workflow 0 = Some (s2, response2) \<and>
      agree_up_to_clock response2 response1"
    using run by blast
  from run Execute_vars_Some [OF valid, of world_a email_workflow response1]
  obtain s1' where
    run': "Execute_vars world_a ?s email_workflow 0 = Some (s1', response1)"
    by blast
  from both [THEN conjunct2, rule_format, OF valid run']
  have second: "\<exists>s1 response1 s2 response2.
      Execute_vars world_a ?s email_workflow 0 = Some (s1, response1) \<and>
      Execute_vars world_b s1 email_workflow 0 = Some (s2, response2) \<and>
      maps s2 0 = maps ?s 0 \<and>
      agree_up_to_clock response2 response1"
    using run' by blast
  from fw first valid second show ?thesis by blast
qed

end
